theory Spec2Isabelle
  imports Main "HOL-Library.Monad_Syntax"
begin

section \<open>JavaScript dates\<close>

text \<open>
  A JavaScript \<open>Date\<close> is its time value: milliseconds since the epoch.  The calendar
  functions follow ECMA-262 (Day, DayFromYear, YearFromTime, MonthFromTime, DateFromTime,
  MakeDay, MakeDate).  Local time is taken to be UTC, so that no daylight-saving
  transition occurs and local fields are the UTC fields.
\<close>

type_synonym date = int

definition msPerDay :: int where
  "msPerDay = 86400000"

definition Day :: "date \<Rightarrow> int" where
  "Day t = t div msPerDay"

definition TimeWithinDay :: "date \<Rightarrow> int" where
  "TimeWithinDay t = t mod msPerDay"

definition MakeDate :: "int \<Rightarrow> int \<Rightarrow> date" where
  "MakeDate dy tm = dy * msPerDay + tm"

text \<open>
  The time value of a \<open>Date\<close> lies within 8.64 * 10^15 ms of the epoch.  A method that
  would store a time value outside this range stores \<open>NaN\<close> instead (\<open>TimeClip\<close>): the
  \<open>Date\<close> is then an Invalid Date, which stays invalid under \<open>setDate\<close>, hence under
  \<open>addDays\<close>, and of which \<open>isBefore\<close> and \<open>isAfter\<close> are false.  The functions of this
  section are those of valid dates: they compute on time values, without the clip.  Where
  the program can drive a date out of the range by a stored number of days, in the loops
  of the interval algorithm, the Invalid Date is followed explicitly: there a time value
  out of the range stands for it.
\<close>

definition maxTimeValue :: int where
  "maxTimeValue = 8640000000000000"

definition inTimeRange :: "date \<Rightarrow> bool" where
  "inTimeRange t = (- maxTimeValue \<le> t \<and> t \<le> maxTimeValue)"

definition isLeapYear :: "int \<Rightarrow> bool" where
  "isLeapYear y = (y mod 4 = 0 \<and> (y mod 100 \<noteq> 0 \<or> y mod 400 = 0))"

definition DaysInYear :: "int \<Rightarrow> int" where
  "DaysInYear y = (if isLeapYear y then 366 else 365)"

definition DayFromYear :: "int \<Rightarrow> int" where
  "DayFromYear y =
     365 * (y - 1970) + (y - 1969) div 4 - (y - 1901) div 100 + (y - 1601) div 400"

lemma div_succ:
  fixes x n :: int
  assumes "0 < n"
  shows "(x + 1) div n = x div n + (if (x + 1) mod n = 0 then 1 else 0)"
proof -
  define q r where "q = x div n" and "r = x mod n"
  have x: "x = q * n + r" and r: "0 \<le> r" "r < n"
    using assms by (simp_all add: q_def r_def)
  show ?thesis
  proof (cases "r + 1 = n")
    case True
    then have "x + 1 = (q + 1) * n" using x by (simp add: algebra_simps)
    then have "(x + 1) div n = q + 1" "(x + 1) mod n = 0" using assms by simp_all
    then show ?thesis by (simp add: q_def)
  next
    case False
    then have lt: "r + 1 < n" using r by simp
    have e: "x + 1 = (r + 1) + q * n" using x by simp
    have "(x + 1) div n = q" "(x + 1) mod n = r + 1"
      unfolding e using lt r by (simp_all add: div_pos_pos_trivial mod_pos_pos_trivial)
    then show ?thesis using r by (simp add: q_def)
  qed
qed

lemma mod_shift: "((y::int) - k * n) mod n = y mod n"
proof -
  have "y - k * n = y + (- k) * n" by simp
  then show ?thesis by (simp only: mod_mult_self1 mod_mult_self2)
qed

lemma m400_100: "(y::int) mod 400 = 0 \<Longrightarrow> y mod 100 = 0"
  using mod_mod_cancel [of 100 400 y] by simp

lemma m100_4: "(y::int) mod 100 = 0 \<Longrightarrow> y mod 4 = 0"
  using mod_mod_cancel [of 4 100 y] by simp

lemma DayFromYear_step: "DayFromYear (y + 1) = DayFromYear y + DaysInYear y"
proof -
  define A B C where "A = (y - 1969) div 4" and "B = (y - 1901) div 100"
    and "C = (y - 1601) div 400"
  define A' B' C' where "A' = (y - 1968) div 4" and "B' = (y - 1900) div 100"
    and "C' = (y - 1600) div 400"
  define p q r where "p \<longleftrightarrow> y mod 4 = 0" and "q \<longleftrightarrow> y mod 100 = 0" and "r \<longleftrightarrow> y mod 400 = 0"
  have a: "A' = A + (if p then 1 else 0)"
    unfolding A_def A'_def p_def
    using div_succ [of 4 "y - 1969"] mod_shift [of y 492 4] by simp
  have b: "B' = B + (if q then 1 else 0)"
    unfolding B_def B'_def q_def
    using div_succ [of 100 "y - 1901"] mod_shift [of y 19 100] by simp
  have c: "C' = C + (if r then 1 else 0)"
    unfolding C_def C'_def r_def
    using div_succ [of 400 "y - 1601"] mod_shift [of y 4 400] by simp
  have rq: "r \<longrightarrow> q" and qp: "q \<longrightarrow> p"
    unfolding p_def q_def r_def using m400_100 [of y] m100_4 [of y] by blast+
  have l: "DayFromYear (y + 1) = 365 * (y - 1969) + A' - B' + C'"
    by (simp add: DayFromYear_def A'_def B'_def C'_def)
  have m: "DayFromYear y = 365 * (y - 1970) + A - B + C"
    by (simp add: DayFromYear_def A_def B_def C_def)
  have n: "DaysInYear y = (if p \<and> (\<not> q \<or> r) then 366 else 365)"
    by (simp add: DaysInYear_def isLeapYear_def p_def q_def r_def)
  show ?thesis
    unfolding l m n a b c using rq qp by (cases p; cases q; cases r) simp_all
qed

lemma DayFromYear_less_Suc: "DayFromYear y < DayFromYear (y + 1)"
  by (simp add: DayFromYear_step DaysInYear_def)

lemma DayFromYear_pred: "DayFromYear (y - 1) < DayFromYear y"
  using DayFromYear_less_Suc [of "y - 1"] by simp

function yearDown :: "int \<Rightarrow> int \<Rightarrow> int" where
  "yearDown d y = (if d < DayFromYear y then yearDown d (y - 1) else y)"
  by pat_completeness auto
termination
proof (relation "measure (\<lambda>(d, y). nat (DayFromYear y - d))")
  show "wf (measure (\<lambda>(d, y). nat (DayFromYear y - d)))" by simp
next
  fix d y :: int
  assume "d < DayFromYear y"
  then show "((d, y - 1), (d, y)) \<in> measure (\<lambda>(d, y). nat (DayFromYear y - d))"
    using DayFromYear_pred [of y] by simp
qed

function yearUp :: "int \<Rightarrow> int \<Rightarrow> int" where
  "yearUp d y = (if DayFromYear (y + 1) \<le> d then yearUp d (y + 1) else y)"
  by pat_completeness auto
termination
proof (relation "measure (\<lambda>(d, y). nat (d + 1 - DayFromYear (y + 1)))")
  show "wf (measure (\<lambda>(d, y). nat (d + 1 - DayFromYear (y + 1))))" by simp
next
  fix d y :: int
  assume "DayFromYear (y + 1) \<le> d"
  then show "((d, y + 1), (d, y)) \<in> measure (\<lambda>(d, y). nat (d + 1 - DayFromYear (y + 1)))"
    using DayFromYear_less_Suc [of "y + 1"] by simp
qed

definition YearFromDay :: "int \<Rightarrow> int" where
  "YearFromDay d = yearUp d (yearDown d (1970 + d div 365))"

definition DayWithinYear :: "int \<Rightarrow> int" where
  "DayWithinYear d = d - DayFromYear (YearFromDay d)"

definition monthStart :: "bool \<Rightarrow> int \<Rightarrow> int" where
  "monthStart leap m =
     (let l = (if leap then 1 else 0) in
      if m = 0 then 0 else if m = 1 then 31 else if m = 2 then 59 + l
      else if m = 3 then 90 + l else if m = 4 then 120 + l else if m = 5 then 151 + l
      else if m = 6 then 181 + l else if m = 7 then 212 + l else if m = 8 then 243 + l
      else if m = 9 then 273 + l else if m = 10 then 304 + l else 334 + l)"

definition monthOf :: "bool \<Rightarrow> int \<Rightarrow> int" where
  "monthOf leap w =
     (if w < monthStart leap 1 then 0 else if w < monthStart leap 2 then 1
      else if w < monthStart leap 3 then 2 else if w < monthStart leap 4 then 3
      else if w < monthStart leap 5 then 4 else if w < monthStart leap 6 then 5
      else if w < monthStart leap 7 then 6 else if w < monthStart leap 8 then 7
      else if w < monthStart leap 9 then 8 else if w < monthStart leap 10 then 9
      else if w < monthStart leap 11 then 10 else 11)"

definition MonthFromDay :: "int \<Rightarrow> int" where
  "MonthFromDay d = monthOf (isLeapYear (YearFromDay d)) (DayWithinYear d)"

definition DateFromDay :: "int \<Rightarrow> int" where
  "DateFromDay d =
     DayWithinYear d - monthStart (isLeapYear (YearFromDay d)) (MonthFromDay d) + 1"

definition MakeDay :: "int \<Rightarrow> int \<Rightarrow> int \<Rightarrow> int" where
  "MakeDay year month dt =
     (let ym = year + month div 12; mn = month mod 12
      in DayFromYear ym + monthStart (isLeapYear ym) mn + dt - 1)"

definition daysInMonth :: "bool \<Rightarrow> int \<Rightarrow> int" where
  "daysInMonth leap m =
     (if m = 1 then (if leap then 29 else 28)
      else if m = 3 \<or> m = 5 \<or> m = 8 \<or> m = 10 then 30 else 31)"

subsection \<open>Date methods and the date-fns functions the services call\<close>

definition getFullYear :: "date \<Rightarrow> int" where
  "getFullYear t = YearFromDay (Day t)"

definition getMonth :: "date \<Rightarrow> int" where
  "getMonth t = MonthFromDay (Day t)"

definition getDate :: "date \<Rightarrow> int" where
  "getDate t = DateFromDay (Day t)"

definition setFullYear :: "date \<Rightarrow> int \<Rightarrow> date" where
  "setFullYear t y = MakeDate (MakeDay y (getMonth t) (getDate t)) (TimeWithinDay t)"

definition setMonthDate :: "date \<Rightarrow> int \<Rightarrow> int \<Rightarrow> date" where
  \<comment> \<open>\<open>Date.prototype.setMonth(month, date)\<close>\<close>
  "setMonthDate t m dt = MakeDate (MakeDay (getFullYear t) m dt) (TimeWithinDay t)"

definition setDateOfMonth :: "date \<Rightarrow> int \<Rightarrow> date" where
  \<comment> \<open>\<open>Date.prototype.setDate(date)\<close>\<close>
  "setDateOfMonth t dt = MakeDate (MakeDay (getFullYear t) (getMonth t) dt) (TimeWithinDay t)"

definition startOfDay :: "date \<Rightarrow> date" where
  "startOfDay t = MakeDate (Day t) 0"

definition endOfDay :: "date \<Rightarrow> date" where
  "endOfDay t = MakeDate (Day t) (msPerDay - 1)"

definition addDays :: "date \<Rightarrow> int \<Rightarrow> date" where
  "addDays t amount = (if amount = 0 then t else setDateOfMonth t (getDate t + amount))"

definition setYear :: "date \<Rightarrow> int \<Rightarrow> date" where
  "setYear t year = setFullYear t year"

definition getDaysInMonth :: "date \<Rightarrow> int" where
  "getDaysInMonth t = DateFromDay (MakeDay (getFullYear t) (getMonth t + 1) 0)"

definition setMonth :: "date \<Rightarrow> int \<Rightarrow> date" where
  "setMonth t month =
     (let year = getFullYear t;
          day = getDate t;
          midMonth = MakeDate (MakeDay year month 15) 0;
          daysInMonth = getDaysInMonth midMonth
      in setMonthDate t month (min day daysInMonth))"

definition setDate :: "date \<Rightarrow> int \<Rightarrow> date" where
  "setDate t dayOfMonth = setDateOfMonth t dayOfMonth"

definition isBefore :: "date \<Rightarrow> date \<Rightarrow> bool" where
  "isBefore t dateToCompare = (t < dateToCompare)"

definition isAfter :: "date \<Rightarrow> date \<Rightarrow> bool" where
  "isAfter t dateToCompare = (t > dateToCompare)"

definition differenceInCalendarDays :: "date \<Rightarrow> date \<Rightarrow> int" where
  "differenceInCalendarDays l r = Day (startOfDay l) - Day (startOfDay r)"

definition compareLocalAsc :: "date \<Rightarrow> date \<Rightarrow> int" where
  "compareLocalAsc l r = sgn (l - r)"

definition differenceInDays :: "date \<Rightarrow> date \<Rightarrow> int" where
  "differenceInDays l r =
     (let sign = compareLocalAsc l r;
          difference = \<bar>differenceInCalendarDays l r\<bar>;
          l' = setDateOfMonth l (getDate l - sign * difference);
          isLastDayNotFull = (if compareLocalAsc l' r = - sign then 1 else 0)
      in sign * (difference - isLastDayNotFull))"

section \<open>Data model\<close>

datatype ReminderType = birthday | anniversary | follow_up | custom

datatype ReminderPriority = high | medium | low

datatype ReminderStatus = pending | completed | snoozed | skipped

datatype IntervalAnchor = last_contact | creation | custom_date

datatype PlanTier = free | pro

text \<open>An \<open>ObjectId\<close> is identified with its \<open>toString()\<close>, the 24-digit hex string.\<close>

type_synonym objectId = string

record MonthDay =
  md_month :: int
  md_day :: int
  md_year :: "int option"

record LeanReminderRule =
  r_id :: objectId
  r_userId :: objectId
  r_contactId :: objectId
  r_type :: ReminderType
  r_fixedDate :: "MonthDay option"
  r_intervalDays :: "int option"
  r_intervalAnchor :: "IntervalAnchor option"
  r_customAnchorDate :: "date option"
  r_priority :: ReminderPriority
  r_isActive :: bool
  r_notifyDaysBefore :: "int list option"
  r_customTitle :: "string option"
  r_createdAt :: date

record Contact =
  c_id :: objectId
  c_userId :: objectId
  c_name :: string
  c_lastContactedAt :: "date option"

record LastContactInfo =
  lc_contactId :: string
  lc_lastContactedAt :: "date option"

record ReminderInstance =
  i_id :: objectId
  i_ruleId :: objectId
  i_userId :: objectId
  i_contactId :: objectId
  i_instanceKey :: string
  i_dueDate :: date
  i_status :: ReminderStatus
  i_completedAt :: "date option"
  i_snoozedUntil :: "date option"
  i_skippedAt :: "date option"
  i_type :: ReminderType
  i_priority :: ReminderPriority
  i_contactName :: "string option"
  i_customTitle :: "string option"
  i_createdAt :: date
  i_updatedAt :: date

record MaterializationResult =
  userId :: string
  rulesProcessed :: nat
  instancesCreated :: nat
  instancesUpdated :: nat
  errors :: "(string \<times> string) list"

definition MATERIALIZATION_WINDOW :: "PlanTier \<Rightarrow> int" where
  "MATERIALIZATION_WINDOW plan = (case plan of free \<Rightarrow> 30 | pro \<Rightarrow> 90)"

definition REMINDER_TYPE_SCORES :: "ReminderType \<Rightarrow> int" where
  "REMINDER_TYPE_SCORES t =
     (case t of birthday \<Rightarrow> 15 | anniversary \<Rightarrow> 12 | follow_up \<Rightarrow> 10 | custom \<Rightarrow> 8)"

definition PRIORITY_MULTIPLIERS :: "ReminderPriority \<Rightarrow> int" where
  "PRIORITY_MULTIPLIERS p = (case p of high \<Rightarrow> 3 | medium \<Rightarrow> 2 | low \<Rightarrow> 1)"

definition OVERDUE_PENALTY_PER_DAY :: int where
  "OVERDUE_PENALTY_PER_DAY = 5"

definition QUEUE_CAPS :: "PlanTier \<Rightarrow> nat" where
  "QUEUE_CAPS plan = (case plan of free \<Rightarrow> 10 | pro \<Rightarrow> 25)"

definition DEFAULT_SNOOZE_DAYS :: int where
  "DEFAULT_SNOOZE_DAYS = 1"

section \<open>Recurrence calculator (ReminderMaterializerService)\<close>

subsection \<open>Instance key\<close>

text \<open>
  \<open>format(dueDate, 'yyyy-MM-dd')\<close> of date-fns: the year token prints
  \<open>year > 0 ? year : 1 - year\<close>; each token is padded with leading zeros to its width.
\<close>

definition digitChar :: "nat \<Rightarrow> char" where
  "digitChar n = char_of (48 + n)"

function digits :: "nat \<Rightarrow> string" where
  "digits n = (if n < 10 then [digitChar n] else digits (n div 10) @ [digitChar (n mod 10)])"
  by pat_completeness auto
termination
  by (relation "measure id") auto

definition addLeadingZeros :: "int \<Rightarrow> nat \<Rightarrow> string" where
  "addLeadingZeros number targetLength =
     (let n = nat \<bar>number\<bar>; s = digits n
      in (if number < 0 then [CHR ''-''] else [])
         @ replicate (targetLength - length s) (CHR ''0'') @ s)"

definition format_yyyy_MM_dd :: "date \<Rightarrow> string" where
  "format_yyyy_MM_dd t =
     (let signedYear = getFullYear t;
          year = (if signedYear > 0 then signedYear else 1 - signedYear)
      in addLeadingZeros year 4 @ [CHR ''-''] @ addLeadingZeros (getMonth t + 1) 2
         @ [CHR ''-''] @ addLeadingZeros (getDate t) 2)"

definition generateInstanceKey :: "string \<Rightarrow> date \<Rightarrow> string" where
  "generateInstanceKey ruleId dueDate = ruleId @ [CHR '':''] @ format_yyyy_MM_dd dueDate"

subsection \<open>Fixed-date rules\<close>

definition notifyDatesInWindow :: "int list \<Rightarrow> date \<Rightarrow> date \<Rightarrow> date \<Rightarrow> date list" where
  \<comment> \<open>the loop over \<open>notifyOffsets\<close>, the same in both algorithms\<close>
  "notifyDatesInWindow notifyOffsets eventDate windowStart windowEnd =
     concat (map (\<lambda>offset.
        let notifyDate = addDays eventDate (- offset)
        in if \<not> isBefore notifyDate windowStart \<and> \<not> isAfter notifyDate windowEnd
           then [notifyDate] else []) notifyOffsets)"

definition notifyOffsetsOf :: "LeanReminderRule \<Rightarrow> int list" where
  \<comment> \<open>\<open>rule.notifyDaysBefore || [0]\<close>: an array, also an empty one, is truthy\<close>
  "notifyOffsetsOf rule = (case r_notifyDaysBefore rule of None \<Rightarrow> [0] | Some os \<Rightarrow> os)"

definition fixedEventDate :: "date \<Rightarrow> int \<Rightarrow> int \<Rightarrow> int \<Rightarrow> date" where
  "fixedEventDate windowStart year month day =
     (let eventDate = setYear windowStart year;
          eventDate = setMonth eventDate (month - 1);
          eventDate = setDate eventDate day
      in startOfDay eventDate)"

definition computeFixedDateDues :: "LeanReminderRule \<Rightarrow> date \<Rightarrow> date \<Rightarrow> date list" where
  "computeFixedDateDues rule windowStart windowEnd =
     (case r_fixedDate rule of
        None \<Rightarrow> []
      | Some fd \<Rightarrow>
          let notifyOffsets = notifyOffsetsOf rule;
              currentYear = getFullYear windowStart
          in concat (map (\<lambda>year.
               notifyDatesInWindow notifyOffsets
                 (fixedEventDate windowStart year (md_month fd) (md_day fd))
                 windowStart windowEnd)
             [currentYear, currentYear + 1]))"

subsection \<open>Interval rules\<close>

definition resolveAnchorDate :: "LeanReminderRule \<Rightarrow> LastContactInfo \<Rightarrow> date" where
  "resolveAnchorDate rule contactInfo =
     startOfDay
       (case r_intervalAnchor rule of
          Some last_contact \<Rightarrow>
            (case lc_lastContactedAt contactInfo of
               None \<Rightarrow> r_createdAt rule
             | Some t \<Rightarrow> t)
        | Some custom_date \<Rightarrow>
            (case r_customAnchorDate rule of None \<Rightarrow> r_createdAt rule | Some t \<Rightarrow> t)
        | _ \<Rightarrow> r_createdAt rule)"

text \<open>
  The two \<open>while\<close> loops.  Either may run forever, so both are partial functions: \<open>None\<close>
  is "does not return".  The loop variable \<open>nextDueDate\<close> is advanced by the rule's own
  \<open>intervalDays\<close>, which the schema of the rule collection bounds from below only, so it
  may leave the range of time values and be the Invalid Date.  The Invalid Date is not before
  \<open>windowStart\<close>: the first loop exits.  It is not after \<open>windowEnd\<close> either, \<open>addDays\<close>
  leaves it invalid, and each \<open>notifyDate\<close>, invalid as well, passes the window test and
  is pushed: the second loop never exits.
\<close>

partial_function (option) advanceToWindow :: "int \<Rightarrow> date \<Rightarrow> date \<Rightarrow> date option" where
  "advanceToWindow intervalDays windowStart nextDueDate =
     (if inTimeRange nextDueDate \<and> isBefore nextDueDate windowStart
      then advanceToWindow intervalDays windowStart (addDays nextDueDate intervalDays)
      else Some nextDueDate)"

partial_function (option) generateDues ::
  "int \<Rightarrow> int list \<Rightarrow> date \<Rightarrow> date \<Rightarrow> date \<Rightarrow> date list \<Rightarrow> date list option" where
  "generateDues intervalDays notifyOffsets windowStart windowEnd nextDueDate dueDates =
     (if \<not> inTimeRange nextDueDate
      then generateDues intervalDays notifyOffsets windowStart windowEnd nextDueDate
             (dueDates @ map (\<lambda>offset. nextDueDate) notifyOffsets)
      else if \<not> isAfter nextDueDate windowEnd
      then generateDues intervalDays notifyOffsets windowStart windowEnd
             (addDays nextDueDate intervalDays)
             (dueDates @ notifyDatesInWindow notifyOffsets nextDueDate windowStart windowEnd)
      else Some dueDates)"

definition firstDueDate :: "int \<Rightarrow> date \<Rightarrow> date \<Rightarrow> date option" where
  "firstDueDate intervalDays windowStart anchorDate =
     (let daysSinceAnchor = differenceInDays windowStart anchorDate;
          intervalsPassed = daysSinceAnchor div intervalDays;
          nextDueDate = addDays anchorDate ((intervalsPassed + 1) * intervalDays)
      in advanceToWindow intervalDays windowStart nextDueDate)"

definition computeFollowUpDues ::
  "LeanReminderRule \<Rightarrow> date \<Rightarrow> date \<Rightarrow> LastContactInfo \<Rightarrow> date list option" where
  "computeFollowUpDues rule windowStart windowEnd contactInfo =
     (case r_intervalDays rule of
        None \<Rightarrow> Some []
      | Some intervalDays \<Rightarrow>
          if intervalDays = 0 then Some []
          else do {
            nextDueDate \<leftarrow>
              firstDueDate intervalDays windowStart (resolveAnchorDate rule contactInfo);
            generateDues intervalDays (notifyOffsetsOf rule) windowStart windowEnd nextDueDate []
          })"

definition computeDueDates ::
  "LeanReminderRule \<Rightarrow> date \<Rightarrow> date \<Rightarrow> LastContactInfo \<Rightarrow> date list option" where
  "computeDueDates rule windowStart windowEnd contactInfo =
     (case r_type rule of
        birthday \<Rightarrow> Some (computeFixedDateDues rule windowStart windowEnd)
      | anniversary \<Rightarrow> Some (computeFixedDateDues rule windowStart windowEnd)
      | follow_up \<Rightarrow> computeFollowUpDues rule windowStart windowEnd contactInfo
      | custom \<Rightarrow>
          (case r_fixedDate rule of
             Some _ \<Rightarrow> Some (computeFixedDateDues rule windowStart windowEnd)
           | None \<Rightarrow>
               (case r_intervalDays rule of
                  None \<Rightarrow> Some []
                | Some n \<Rightarrow>
                    if n = 0 then Some []
                    else computeFollowUpDues rule windowStart windowEnd contactInfo)))"

definition newDate :: "int \<Rightarrow> int \<Rightarrow> int \<Rightarrow> date" where
  \<comment> \<open>\<open>new Date(year, monthIndex, day)\<close>: local midnight of a civil date\<close>
  "newDate year monthIndex day = MakeDate (MakeDay year monthIndex day) 0"

section \<open>The instance collection\<close>

text \<open>
  The \<open>reminderinstances\<close> collection is the list of its documents.  A filter selects the
  first matching document.  The \<open>_id\<close> of an inserted document comes from the driver; it is
  the parameter \<open>newId\<close>.  Within one service call every \<open>new Date()\<close> is the same instant
  \<open>now\<close>.
\<close>

fun updateFirst :: "('a \<Rightarrow> bool) \<Rightarrow> ('a \<Rightarrow> 'a) \<Rightarrow> 'a list \<Rightarrow> 'a list" where
  "updateFirst P f [] = []"
| "updateFirst P f (x # xs) = (if P x then f x # xs else x # updateFirst P f xs)"

definition findOneAndUpdate ::
  "('a \<Rightarrow> bool) \<Rightarrow> ('a \<Rightarrow> 'a) \<Rightarrow> 'a list \<Rightarrow> 'a option \<times> 'a list" where
  \<comment> \<open>with \<open>{ new: true }\<close>: the updated document is returned, \<open>null\<close> when none matches\<close>
  "findOneAndUpdate flt upd coll =
     (case find flt coll of
        None \<Rightarrow> (None, coll)
      | Some doc \<Rightarrow> (Some (upd doc), updateFirst flt upd coll))"

record InstanceInsert =
  s_ruleId :: objectId
  s_userId :: objectId
  s_contactId :: objectId
  s_instanceKey :: string
  s_dueDate :: date
  s_status :: ReminderStatus
  s_type :: ReminderType
  s_priority :: ReminderPriority
  s_contactName :: "string option"
  s_customTitle :: "string option"
  s_createdAt :: date

record UpsertOp =
  filterInstanceKey :: string
  setOnInsert :: InstanceInsert
  setUpdatedAt :: date

record BulkWriteResult =
  upsertedCount :: nat
  modifiedCount :: nat

definition insertedDoc :: "objectId \<Rightarrow> UpsertOp \<Rightarrow> ReminderInstance" where
  "insertedDoc oid op =
     (let s = setOnInsert op in
      \<lparr> i_id = oid, i_ruleId = s_ruleId s, i_userId = s_userId s, i_contactId = s_contactId s,
        i_instanceKey = s_instanceKey s, i_dueDate = s_dueDate s, i_status = s_status s,
        i_completedAt = None, i_snoozedUntil = None, i_skippedAt = None,
        i_type = s_type s, i_priority = s_priority s, i_contactName = s_contactName s,
        i_customTitle = s_customTitle s, i_createdAt = s_createdAt s,
        i_updatedAt = setUpdatedAt op \<rparr>)"

definition applyUpsert ::
  "(ReminderInstance list \<Rightarrow> objectId) \<Rightarrow> UpsertOp
   \<Rightarrow> ReminderInstance list \<times> BulkWriteResult \<Rightarrow> ReminderInstance list \<times> BulkWriteResult" where
  "applyUpsert newId op st =
     (let coll = fst st; res = snd st; flt = (\<lambda>i. i_instanceKey i = filterInstanceKey op)
      in case find flt coll of
           Some doc \<Rightarrow>
             (updateFirst flt (\<lambda>i. i\<lparr>i_updatedAt := setUpdatedAt op\<rparr>) coll,
              if i_updatedAt doc \<noteq> setUpdatedAt op
              then res\<lparr>modifiedCount := modifiedCount res + 1\<rparr> else res)
         | None \<Rightarrow>
             (coll @ [insertedDoc (newId coll) op],
              res\<lparr>upsertedCount := upsertedCount res + 1\<rparr>))"

fun bulkWriteFrom ::
  "(ReminderInstance list \<Rightarrow> objectId) \<Rightarrow> UpsertOp list
   \<Rightarrow> ReminderInstance list \<times> BulkWriteResult \<Rightarrow> ReminderInstance list \<times> BulkWriteResult" where
  "bulkWriteFrom newId [] st = st"
| "bulkWriteFrom newId (op # ops) st = bulkWriteFrom newId ops (applyUpsert newId op st)"

definition expiredByTTL :: "date \<Rightarrow> ReminderInstance \<Rightarrow> bool" where
  \<comment> \<open>the TTL index of the schema, \<open>{ completedAt: 1 }\<close> with \<open>expireAfterSeconds\<close> 30 days
      and the partial filter \<open>{ status: 'completed' }\<close>: the database itself removes such
      a document, so no collection holds it\<close>
  "expiredByTTL now i =
     (i_status i = completed
      \<and> (case i_completedAt i of
            None \<Rightarrow> False
          | Some t \<Rightarrow> t + 30 * 24 * 60 * 60 * 1000 \<le> now))"

definition bulkWrite ::
  "(ReminderInstance list \<Rightarrow> objectId) \<Rightarrow> UpsertOp list \<Rightarrow> ReminderInstance list
   \<Rightarrow> ReminderInstance list \<times> BulkWriteResult" where
  "bulkWrite newId ops coll =
     bulkWriteFrom newId ops (coll, \<lparr> upsertedCount = 0, modifiedCount = 0 \<rparr>)"

section \<open>Materializer\<close>

definition upsertOp ::
  "LeanReminderRule \<Rightarrow> objectId \<Rightarrow> string option \<Rightarrow> date \<Rightarrow> date \<Rightarrow> UpsertOp" where
  "upsertOp rule uid contactName now dueDate =
     (let instanceKey = generateInstanceKey (r_id rule) dueDate in
      \<lparr> filterInstanceKey = instanceKey,
        setOnInsert =
          \<lparr> s_ruleId = r_id rule, s_userId = uid, s_contactId = r_contactId rule,
            s_instanceKey = instanceKey, s_dueDate = dueDate, s_status = pending,
            s_type = r_type rule, s_priority = r_priority rule, s_contactName = contactName,
            s_customTitle = r_customTitle rule, s_createdAt = now \<rparr>,
        setUpdatedAt = now \<rparr>)"

definition contactMapGet :: "Contact list \<Rightarrow> objectId \<Rightarrow> Contact option" where
  \<comment> \<open>\<open>contactMap.get(id)\<close> after \<open>contactMap.set(contact._id, contact)\<close> for each contact
      in turn: the last one set under an id is the one found\<close>
  "contactMapGet contacts cid = find (\<lambda>c. c_id c = cid) (rev contacts)"

fun materializeUserLoop ::
  "objectId \<Rightarrow> date \<Rightarrow> Contact list \<Rightarrow> date \<Rightarrow> date \<Rightarrow> LeanReminderRule list
   \<Rightarrow> MaterializationResult \<times> UpsertOp list \<Rightarrow> (MaterializationResult \<times> UpsertOp list) option" where
  "materializeUserLoop uid now contactMap windowStart windowEnd [] st = Some st"
| "materializeUserLoop uid now contactMap windowStart windowEnd (rule # rules) st =
     (let result = (fst st)\<lparr>rulesProcessed := rulesProcessed (fst st) + 1\<rparr>;
          bulkOps = snd st
      in case contactMapGet contactMap (r_contactId rule) of
           None \<Rightarrow>
             materializeUserLoop uid now contactMap windowStart windowEnd rules
               (result\<lparr>errors := errors result @ [(r_id rule, ''Contact not found'')]\<rparr>, bulkOps)
         | Some contact \<Rightarrow>
             do {
               dueDates \<leftarrow> computeDueDates rule windowStart windowEnd
                 \<lparr> lc_contactId = c_id contact,
                   lc_lastContactedAt = c_lastContactedAt contact \<rparr>;
               materializeUserLoop uid now contactMap windowStart windowEnd rules
                 (result,
                  bulkOps @ map (upsertOp rule uid (Some (c_name contact)) now) dueDates)
             })"

definition materializeUser ::
  "(ReminderInstance list \<Rightarrow> objectId) \<Rightarrow> date \<Rightarrow> LeanReminderRule list \<Rightarrow> Contact list
   \<Rightarrow> ReminderInstance list \<Rightarrow> objectId \<Rightarrow> PlanTier
   \<Rightarrow> (MaterializationResult \<times> ReminderInstance list) option" where
  "materializeUser newId now ruleColl contactColl coll uid plan =
     (let windowDays = MATERIALIZATION_WINDOW plan;
          result = \<lparr> userId = uid, rulesProcessed = 0, instancesCreated = 0,
                     instancesUpdated = 0, errors = [] \<rparr>;
          rules = filter (\<lambda>r. r_userId r = uid \<and> r_isActive r) ruleColl
      in if length rules = 0 then Some (result, coll)
         else
           let contactIds = remdups (map r_contactId rules);
               contacts = filter (\<lambda>c. c_id c \<in> set contactIds \<and> c_userId c = uid) contactColl;
               windowStart = startOfDay now;
               windowEnd = addDays windowStart windowDays
           in do {
                st \<leftarrow> materializeUserLoop uid now contacts windowStart windowEnd rules (result, []);
                let result = fst st; bulkOps = snd st
                in if length bulkOps > 0
                   then let w = bulkWrite newId bulkOps coll
                        in Some (result\<lparr>instancesCreated := upsertedCount (snd w),
                                        instancesUpdated := modifiedCount (snd w)\<rparr>, fst w)
                   else Some (result, coll)
              })"

definition materializeRule ::
  "(ReminderInstance list \<Rightarrow> objectId) \<Rightarrow> date \<Rightarrow> LeanReminderRule list \<Rightarrow> Contact list
   \<Rightarrow> ReminderInstance list \<Rightarrow> objectId \<Rightarrow> PlanTier
   \<Rightarrow> (MaterializationResult \<times> ReminderInstance list) option" where
  "materializeRule newId now ruleColl contactColl coll ruleId plan =
     (case find (\<lambda>r. r_id r = ruleId) ruleColl of
        None \<Rightarrow>
          Some (\<lparr> userId = [], rulesProcessed = 0, instancesCreated = 0, instancesUpdated = 0,
                  errors = [(ruleId, ''Rule not found'')] \<rparr>, coll)
      | Some rule \<Rightarrow>
          (case find (\<lambda>c. c_id c = r_contactId rule) contactColl of
             None \<Rightarrow>
               Some (\<lparr> userId = r_userId rule, rulesProcessed = 1, instancesCreated = 0,
                       instancesUpdated = 0, errors = [(ruleId, ''Contact not found'')] \<rparr>, coll)
           | Some contact \<Rightarrow>
               let windowDays = MATERIALIZATION_WINDOW plan;
                   windowStart = startOfDay now;
                   windowEnd = addDays windowStart windowDays
               in do {
                    dueDates \<leftarrow> computeDueDates rule windowStart windowEnd
                      \<lparr> lc_contactId = c_id contact,
                        lc_lastContactedAt = c_lastContactedAt contact \<rparr>;
                    let bulkOps = map (upsertOp rule (r_userId rule) None now) dueDates;
                        w = (if length bulkOps > 0 then bulkWrite newId bulkOps coll
                             else (coll, \<lparr> upsertedCount = 0, modifiedCount = 0 \<rparr>))
                    in Some (\<lparr> userId = r_userId rule, rulesProcessed = 1,
                               instancesCreated = upsertedCount (snd w),
                               instancesUpdated = modifiedCount (snd w), errors = [] \<rparr>, fst w)
                  }))"

definition pruneStaleInstances ::
  "date \<Rightarrow> ReminderInstance list \<Rightarrow> objectId \<Rightarrow> nat \<times> ReminderInstance list" where
  "pruneStaleInstances now coll uid =
     (let thirtyDaysAgo = addDays now (- 30);
          ninetyDaysAgo = addDays now (- 90);
          flt = (\<lambda>i. i_userId i = uid
                   \<and> ((i_dueDate i < thirtyDaysAgo \<and> (i_status i = completed \<or> i_status i = skipped))
                      \<or> i_dueDate i < ninetyDaysAgo))
      in (length (filter flt coll), filter (\<lambda>i. \<not> flt i) coll))"

section \<open>Instance state machine (ReminderService)\<close>

text \<open>
  The schema has \<open>timestamps: true\<close>, so every update also sets \<open>updatedAt\<close>.  The audit
  log written after a successful update is another collection and is left out.
\<close>

record SnoozeInput =
  sn_days :: "int option"
  sn_until :: "date option"

definition markDone ::
  "date \<Rightarrow> ReminderInstance list \<Rightarrow> objectId \<Rightarrow> objectId
   \<Rightarrow> ReminderInstance option \<times> ReminderInstance list" where
  "markDone now coll instanceId uid =
     findOneAndUpdate
       (\<lambda>i. i_id i = instanceId \<and> i_userId i = uid
            \<and> (i_status i = pending \<or> i_status i = snoozed))
       (\<lambda>i. i\<lparr>i_status := completed, i_completedAt := Some now, i_snoozedUntil := None,
               i_updatedAt := now\<rparr>)
       coll"

definition snooze ::
  "date \<Rightarrow> ReminderInstance list \<Rightarrow> objectId \<Rightarrow> objectId \<Rightarrow> SnoozeInput
   \<Rightarrow> ReminderInstance option \<times> ReminderInstance list" where
  "snooze now coll instanceId uid options =
     (let snoozedUntil =
            (case sn_until options of
               Some until \<Rightarrow> until
             | None \<Rightarrow>
                 addDays now (case sn_days options of Some days \<Rightarrow> days | None \<Rightarrow> DEFAULT_SNOOZE_DAYS))
      in findOneAndUpdate
           (\<lambda>i. i_id i = instanceId \<and> i_userId i = uid \<and> i_status i = pending)
           (\<lambda>i. i\<lparr>i_status := snoozed, i_snoozedUntil := Some snoozedUntil, i_updatedAt := now\<rparr>)
           coll)"

definition unsnooze ::
  "date \<Rightarrow> ReminderInstance list \<Rightarrow> objectId \<Rightarrow> objectId
   \<Rightarrow> ReminderInstance option \<times> ReminderInstance list" where
  "unsnooze now coll instanceId uid =
     findOneAndUpdate
       (\<lambda>i. i_id i = instanceId \<and> i_userId i = uid \<and> i_status i = snoozed)
       (\<lambda>i. i\<lparr>i_status := pending, i_snoozedUntil := None, i_updatedAt := now\<rparr>)
       coll"

definition skip ::
  "date \<Rightarrow> ReminderInstance list \<Rightarrow> objectId \<Rightarrow> objectId
   \<Rightarrow> ReminderInstance option \<times> ReminderInstance list" where
  "skip now coll instanceId uid =
     findOneAndUpdate
       (\<lambda>i. i_id i = instanceId \<and> i_userId i = uid
            \<and> (i_status i = pending \<or> i_status i = snoozed))
       (\<lambda>i. i\<lparr>i_status := skipped, i_skippedAt := Some now, i_snoozedUntil := None,
               i_updatedAt := now\<rparr>)
       coll"

section \<open>Today queue (TodayQueueService)\<close>

record ScoredReminder =
  sr_item :: ReminderInstance
  sr_daysOverdue :: int
  sr_typeScore :: "int option"
  sr_priorityMultiplier :: "int option"
  sr_score :: int

record TodayQueueOptions =
  o_userId :: objectId
  o_plan :: "PlanTier option"
  o_limit :: "nat option"
  o_includeOverdue :: "bool option"
  o_skipScoring :: "bool option"

record TodayQueueResult =
  items :: "ScoredReminder list"
  total :: nat
  capped :: bool
  appliedCap :: nat

datatype queue_error = LimitMustBePositive

fun insertBy :: "('a \<Rightarrow> 'a \<Rightarrow> bool) \<Rightarrow> 'a \<Rightarrow> 'a list \<Rightarrow> 'a list" where
  "insertBy le x [] = [x]"
| "insertBy le x (y # ys) = (if le x y then x # y # ys else y # insertBy le x ys)"

definition sortBy :: "('a \<Rightarrow> 'a \<Rightarrow> bool) \<Rightarrow> 'a list \<Rightarrow> 'a list" where
  "sortBy le xs = foldr (insertBy le) xs []"

definition matchCriteria ::
  "date \<Rightarrow> date \<Rightarrow> date \<Rightarrow> objectId \<Rightarrow> bool \<Rightarrow> ReminderInstance \<Rightarrow> bool" where
  "matchCriteria now todayStart todayEnd uid includeOverdue i =
     (i_userId i = uid \<and> i_status i = pending
      \<and> (if includeOverdue then i_dueDate i \<le> todayEnd
          else todayStart \<le> i_dueDate i \<and> i_dueDate i \<le> todayEnd)
      \<and> (case i_snoozedUntil i of None \<Rightarrow> True | Some t \<Rightarrow> t \<le> now))"

definition computeDaysOverdue :: "date \<Rightarrow> date \<Rightarrow> int" where
  "computeDaysOverdue dueDate today =
     (let diff = today - dueDate; days = diff div (1000 * 60 * 60 * 24) in max 0 days)"

definition addScoreFields :: "date \<Rightarrow> ReminderInstance \<Rightarrow> ScoredReminder" where
  \<comment> \<open>the two \<open>$addFields\<close> stages; the \<open>$switch\<close> defaults are never taken, the fields
      being of the enumerated types\<close>
  "addScoreFields todayStart i =
     (let daysOverdue = max 0 ((todayStart - i_dueDate i) div (1000 * 60 * 60 * 24));
          typeScore = REMINDER_TYPE_SCORES (i_type i);
          priorityMultiplier = PRIORITY_MULTIPLIERS (i_priority i)
      in \<lparr> sr_item = i, sr_daysOverdue = daysOverdue, sr_typeScore = Some typeScore,
           sr_priorityMultiplier = Some priorityMultiplier,
           sr_score = typeScore * priorityMultiplier + daysOverdue * OVERDUE_PENALTY_PER_DAY \<rparr>)"

definition scoreOrder :: "ScoredReminder \<Rightarrow> ScoredReminder \<Rightarrow> bool" where
  \<comment> \<open>\<open>$sort: { score: -1, dueDate: 1 }\<close>\<close>
  "scoreOrder a b =
     (sr_score a > sr_score b
      \<or> (sr_score a = sr_score b \<and> i_dueDate (sr_item a) \<le> i_dueDate (sr_item b)))"

definition priorityDescRank :: "ReminderPriority \<Rightarrow> nat" where
  \<comment> \<open>position of the priority string in descending string order:
      \<open>'medium' > 'low' > 'high'\<close>\<close>
  "priorityDescRank p = (case p of medium \<Rightarrow> 0 | low \<Rightarrow> 1 | high \<Rightarrow> 2)"

definition dueOrder :: "ReminderInstance \<Rightarrow> ReminderInstance \<Rightarrow> bool" where
  \<comment> \<open>\<open>.sort({ dueDate: 1, priority: -1 })\<close>\<close>
  "dueOrder a b =
     (i_dueDate a < i_dueDate b
      \<or> (i_dueDate a = i_dueDate b \<and> priorityDescRank (i_priority a) \<le> priorityDescRank (i_priority b)))"

definition getTodayQueue ::
  "date \<Rightarrow> ReminderInstance list \<Rightarrow> TodayQueueOptions \<Rightarrow> queue_error + TodayQueueResult" where
  "getTodayQueue now coll options =
     (let uid = o_userId options;
          plan = (case o_plan options of None \<Rightarrow> free | Some p \<Rightarrow> p);
          limit = o_limit options;
          includeOverdue = (case o_includeOverdue options of None \<Rightarrow> True | Some b \<Rightarrow> b);
          skipScoring = (case o_skipScoring options of None \<Rightarrow> False | Some b \<Rightarrow> b);
          todayStart = startOfDay now;
          todayEnd = endOfDay now;
          matching = filter (matchCriteria now todayStart todayEnd uid includeOverdue) coll;
          appliedCap = (case limit of None \<Rightarrow> QUEUE_CAPS plan | Some n \<Rightarrow> n)
      in if skipScoring
         then
           let found = take (appliedCap + 1) (sortBy dueOrder matching);
               capped = (length found > appliedCap);
               resultItems =
                 map (\<lambda>item. \<lparr> sr_item = item,
                                sr_daysOverdue = computeDaysOverdue (i_dueDate item) todayStart,
                                sr_typeScore = None, sr_priorityMultiplier = None, sr_score = 0 \<rparr>)
                   (take appliedCap found)
           in Inr \<lparr> items = resultItems,
                    total = (if capped then length found else length resultItems),
                    capped = capped, appliedCap = appliedCap \<rparr>
         else if appliedCap = 0 then Inl LimitMustBePositive
         else
           let sorted = sortBy scoreOrder (map (addScoreFields todayStart) matching);
               facetItems = take appliedCap sorted;
               totalCount = length sorted
           in Inr \<lparr> items = facetItems, total = totalCount,
                    capped = (totalCount > appliedCap), appliedCap = appliedCap \<rparr>)"

section \<open>Notions used in the statements, and example data\<close>

definition birthdayRule :: LeanReminderRule where
  "birthdayRule =
     \<lparr> r_id = ''r1'', r_userId = ''u1'', r_contactId = ''c1'', r_type = birthday,
       r_fixedDate = Some \<lparr> md_month = 2, md_day = 29, md_year = None \<rparr>,
       r_intervalDays = None, r_intervalAnchor = None, r_customAnchorDate = None,
       r_priority = medium, r_isActive = True, r_notifyDaysBefore = Some [0],
       r_customTitle = None, r_createdAt = newDate 2024 0 1 \<rparr>"


definition exampleInstance ::
  "objectId \<Rightarrow> objectId \<Rightarrow> date \<Rightarrow> ReminderStatus \<Rightarrow> ReminderInstance" where
  "exampleInstance oid uid dueDate st =
     \<lparr> i_id = oid, i_ruleId = ''r1'', i_userId = uid, i_contactId = ''c1'',
       i_instanceKey = generateInstanceKey ''r1'' dueDate, i_dueDate = dueDate, i_status = st,
       i_completedAt = None, i_snoozedUntil = None, i_skippedAt = None, i_type = follow_up,
       i_priority = medium, i_contactName = Some ''Ann'', i_customTitle = None,
       i_createdAt = addDays dueDate (- 30), i_updatedAt = addDays dueDate (- 30) \<rparr>"

definition stale :: "date \<Rightarrow> objectId \<Rightarrow> ReminderInstance \<Rightarrow> bool" where
  \<comment> \<open>age is measured from the due date\<close>
  "stale now uid i =
     (i_userId i = uid
      \<and> (((i_status i = completed \<or> i_status i = skipped) \<and> i_dueDate i + 30 * msPerDay < now)
         \<or> i_dueDate i + 90 * msPerDay < now))"

definition pruneNow :: date where
  "pruneNow = MakeDate (MakeDay 2025 5 1) 34200000"

definition completedDue40 :: ReminderInstance where
  \<comment> \<open>due 40 days ago, completed 5 days ago\<close>
  "completedDue40 = (exampleInstance ''a1'' ''u1'' (newDate 2025 5 (1 - 40)) completed)
     \<lparr> i_completedAt := Some (addDays pruneNow (- 5)), i_updatedAt := addDays pruneNow (- 5) \<rparr>"


definition pendingDue40 :: ReminderInstance where
  "pendingDue40 = exampleInstance ''a2'' ''u1'' (newDate 2025 5 (1 - 40)) pending"

definition pendingDue91 :: ReminderInstance where
  "pendingDue91 = exampleInstance ''a3'' ''u1'' (newDate 2025 5 (1 - 91)) pending"

definition skippedEarly :: ReminderInstance where
  \<comment> \<open>skipped 40 days ago, 30 days before it fell due\<close>
  "skippedEarly = (exampleInstance ''a4'' ''u1'' (newDate 2025 5 (1 - 10)) skipped)
     \<lparr> i_skippedAt := Some (addDays pruneNow (- 40)), i_updatedAt := addDays pruneNow (- 40) \<rparr>"

definition completedLate :: ReminderInstance where
  \<comment> \<open>due 31 days ago, completed yesterday\<close>
  "completedLate = (exampleInstance ''a5'' ''u1'' (newDate 2025 5 (1 - 31)) completed)
     \<lparr> i_completedAt := Some (addDays pruneNow (- 1)), i_updatedAt := addDays pruneNow (- 1) \<rparr>"

definition pendingExample :: ReminderInstance where
  "pendingExample = exampleInstance ''a3'' ''u1'' (newDate 2025 5 1) pending"

definition snoozedExample :: ReminderInstance where
  "snoozedExample = (exampleInstance ''a1'' ''u1'' (newDate 2025 5 1) snoozed)
     \<lparr> i_snoozedUntil := Some (newDate 2025 5 3) \<rparr>"

definition completedExample :: ReminderInstance where
  "completedExample = (exampleInstance ''a2'' ''u1'' (newDate 2025 5 1) completed)
     \<lparr> i_completedAt := Some (newDate 2025 5 1) \<rparr>"

definition scoringOptions :: "TodayQueueOptions \<Rightarrow> bool" where
  \<comment> \<open>the call of the route: the tier's cap, scoring not skipped\<close>
  "scoringOptions options =
     (o_limit options = None
      \<and> (o_skipScoring options = None \<or> o_skipScoring options = Some False))"

definition planOf :: "TodayQueueOptions \<Rightarrow> PlanTier" where
  "planOf options = (case o_plan options of None \<Rightarrow> free | Some p \<Rightarrow> p)"

definition matchingInstances :: "date \<Rightarrow> ReminderInstance list \<Rightarrow> TodayQueueOptions \<Rightarrow> ReminderInstance list" where
  "matchingInstances now coll options =
     filter (\<lambda>i. i_userId i = o_userId options \<and> i_status i = pending
                \<and> (if o_includeOverdue options = Some False
                    then startOfDay now \<le> i_dueDate i \<and> i_dueDate i \<le> endOfDay now
                    else i_dueDate i \<le> endOfDay now)
                \<and> (case i_snoozedUntil i of None \<Rightarrow> True | Some t \<Rightarrow> t \<le> now))
       coll"

definition scoreOf :: "date \<Rightarrow> ReminderInstance \<Rightarrow> int" where
  \<comment> \<open>the scoring formula, \<open>today\<close> being the start of the current day\<close>
  "scoreOf today i =
     REMINDER_TYPE_SCORES (i_type i) * PRIORITY_MULTIPLIERS (i_priority i)
     + OVERDUE_PENALTY_PER_DAY * max 0 ((today - i_dueDate i) div msPerDay)"

definition queueNow :: date where
  "queueNow = MakeDate (MakeDay 2025 5 1) 34200000"

definition routeOptions :: TodayQueueOptions where
  "routeOptions = \<lparr> o_userId = ''u1'', o_plan = Some free, o_limit = None,
                     o_includeOverdue = Some True, o_skipScoring = None \<rparr>"

definition fifteenDue :: "ReminderInstance list" where
  "fifteenDue =
     map (\<lambda>oid. exampleInstance oid ''u1'' (newDate 2025 5 1) pending)
       [''a01'', ''a02'', ''a03'', ''a04'', ''a05'', ''a06'', ''a07'', ''a08'', ''a09'', ''a10'',
        ''a11'', ''a12'', ''a13'', ''a14'', ''a15'']"

definition highItem :: ReminderInstance where
  "highItem = (exampleInstance ''hi'' ''u1'' (newDate 2025 4 30) pending) \<lparr> i_priority := high \<rparr>"

definition lowItem :: ReminderInstance where
  "lowItem = (exampleInstance ''lo'' ''u1'' (newDate 2025 4 30) pending) \<lparr> i_priority := low \<rparr>"

definition touched :: "ReminderInstance \<Rightarrow> ReminderInstance \<Rightarrow> bool" where
  \<comment> \<open>the second document is the first but possibly for \<open>updatedAt\<close>\<close>
  "touched a b = (b = a\<lparr>i_updatedAt := i_updatedAt b\<rparr>)"

definition extends :: "ReminderInstance list \<Rightarrow> ReminderInstance list \<Rightarrow> bool" where
  \<comment> \<open>every document is kept, in place, but possibly for \<open>updatedAt\<close>; new ones follow\<close>
  "extends coll coll' =
     (length coll \<le> length coll' \<and> list_all2 touched coll (take (length coll) coll'))"

definition keyed :: "UpsertOp \<Rightarrow> bool" where
  "keyed op = (s_instanceKey (setOnInsert op) = filterInstanceKey op)"

definition withinSchema :: "LeanReminderRule \<Rightarrow> bool" where
  \<comment> \<open>the bounds of the request schema (\<open>reminderRuleCreateSchema\<close>, \<open>monthDaySchema\<close>) on
      the scheduling fields, and stored dates that are valid dates\<close>
  "withinSchema rule =
     ((case r_fixedDate rule of
         None \<Rightarrow> True
       | Some fd \<Rightarrow> 1 \<le> md_month fd \<and> md_month fd \<le> 12 \<and> 1 \<le> md_day fd \<and> md_day fd \<le> 31)
      \<and> (case r_intervalDays rule of None \<Rightarrow> True | Some n \<Rightarrow> 1 \<le> n \<and> n \<le> 365)
      \<and> list_all (\<lambda>offset. 0 \<le> offset \<and> offset \<le> 30) (notifyOffsetsOf rule)
      \<and> inTimeRange (r_createdAt rule)
      \<and> (case r_customAnchorDate rule of None \<Rightarrow> True | Some t \<Rightarrow> inTimeRange t))"

definition lastContactInRange :: "date option \<Rightarrow> bool" where
  "lastContactInRange lastContactedAt =
     (case lastContactedAt of None \<Rightarrow> True | Some t \<Rightarrow> inTimeRange t)"

definition clockInRange :: "date \<Rightarrow> bool" where
  \<comment> \<open>the clock is at least 1000 days away from both ends of the range of time values\<close>
  "clockInRange now = (\<bar>now\<bar> + 1000 * msPerDay \<le> maxTimeValue)"

definition windowInRange :: "date \<Rightarrow> date \<Rightarrow> bool" where
  \<comment> \<open>the window starts at the start of a day, and both its ends are at least 500 days
      away from the ends of the range of time values\<close>
  "windowInRange windowStart windowEnd =
     (TimeWithinDay windowStart = 0
      \<and> \<bar>windowStart\<bar> + 500 * msPerDay \<le> maxTimeValue
      \<and> \<bar>windowEnd\<bar> + 500 * msPerDay \<le> maxTimeValue)"

definition dueDatesUpTo :: "date \<Rightarrow> int \<Rightarrow> date \<Rightarrow> date list" where
  \<comment> \<open>\<open>first\<close>, \<open>first + step\<close>, \<open>first + 2 * step\<close>, ... as long as \<open>windowEnd\<close> is not passed\<close>
  "dueDatesUpTo first step windowEnd =
     map (\<lambda>k. first + int k * step) [0 ..< nat ((windowEnd - first) div step + 1)]"

definition fixedDueSequence :: "MonthDay \<Rightarrow> date \<Rightarrow> date list" where
  \<comment> \<open>the month and day in the year of the window start, then in the next year\<close>
  "fixedDueSequence fd windowStart =
     [newDate (getFullYear windowStart) (md_month fd - 1) (md_day fd),
      newDate (getFullYear windowStart + 1) (md_month fd - 1) (md_day fd)]"

definition intervalDueSequence :: "int \<Rightarrow> date \<Rightarrow> date \<Rightarrow> date \<Rightarrow> date list" where
  \<comment> \<open>the dates a whole number of intervals away from the anchor day that lie after
      \<open>windowStart\<close> and not after \<open>windowEnd\<close>\<close>
  "intervalDueSequence intervalDays anchorDate windowStart windowEnd =
     dueDatesUpTo
       (anchorDate
          + ((Day windowStart - Day anchorDate) div intervalDays + 1) * intervalDays * msPerDay)
       (intervalDays * msPerDay) windowEnd"

definition dueSequence ::
  "LeanReminderRule \<Rightarrow> date \<Rightarrow> date \<Rightarrow> LastContactInfo \<Rightarrow> date list" where
  \<comment> \<open>the due dates of a rule, in ascending order\<close>
  "dueSequence rule windowStart windowEnd contactInfo =
     (let fixedDates =
            (case r_fixedDate rule of None \<Rightarrow> [] | Some fd \<Rightarrow> fixedDueSequence fd windowStart);
          intervalDates =
            (case r_intervalDays rule of
               None \<Rightarrow> []
             | Some n \<Rightarrow>
                 intervalDueSequence n (resolveAnchorDate rule contactInfo) windowStart windowEnd)
      in case r_type rule of
           birthday \<Rightarrow> fixedDates
         | anniversary \<Rightarrow> fixedDates
         | follow_up \<Rightarrow> intervalDates
         | custom \<Rightarrow> (case r_fixedDate rule of Some fd \<Rightarrow> fixedDates | None \<Rightarrow> intervalDates))"

definition offsetDates :: "int list \<Rightarrow> date \<Rightarrow> date \<Rightarrow> date \<Rightarrow> date list" where
  \<comment> \<open>the dates \<open>offset\<close> days before a due date that lie in the window, in the order of
      the offsets\<close>
  "offsetDates offsets windowStart windowEnd dueDate =
     map (\<lambda>offset. dueDate - offset * msPerDay)
       (filter (\<lambda>offset. windowStart \<le> dueDate - offset * msPerDay
                         \<and> dueDate - offset * msPerDay \<le> windowEnd) offsets)"

definition generationOrder :: "int list \<Rightarrow> date \<Rightarrow> date \<Rightarrow> date list \<Rightarrow> date list" where
  \<comment> \<open>due date by due date, offset by offset\<close>
  "generationOrder offsets windowStart windowEnd dueDates =
     concat (map (offsetDates offsets windowStart windowEnd) dueDates)"

definition activeRules :: "objectId \<Rightarrow> LeanReminderRule list \<Rightarrow> LeanReminderRule list" where
  "activeRules uid ruleColl = filter (\<lambda>r. r_userId r = uid \<and> r_isActive r) ruleColl"

definition contactOf :: "Contact list \<Rightarrow> objectId \<Rightarrow> objectId \<Rightarrow> Contact option" where
  \<comment> \<open>the owner's contact with the given id, if any\<close>
  "contactOf contactColl uid cid = find (\<lambda>c. c_id c = cid \<and> c_userId c = uid) (rev contactColl)"

definition dueDatesOf ::
  "date \<Rightarrow> PlanTier \<Rightarrow> LeanReminderRule \<Rightarrow> Contact \<Rightarrow> date list option" where
  "dueDatesOf now plan rule contact =
     computeDueDates rule (startOfDay now)
       (addDays (startOfDay now) (MATERIALIZATION_WINDOW plan))
       \<lparr> lc_contactId = c_id contact, lc_lastContactedAt = c_lastContactedAt contact \<rparr>"

definition opsOf ::
  "objectId \<Rightarrow> date \<Rightarrow> (objectId \<Rightarrow> Contact option) \<Rightarrow> date \<Rightarrow> date
   \<Rightarrow> LeanReminderRule \<Rightarrow> UpsertOp list" where
  "opsOf uid now getContact ws we rule =
     (case getContact (r_contactId rule) of
        None \<Rightarrow> []
      | Some c \<Rightarrow>
          (case computeDueDates rule ws we
                  \<lparr> lc_contactId = c_id c, lc_lastContactedAt = c_lastContactedAt c \<rparr> of
             None \<Rightarrow> []
           | Some ds \<Rightarrow> map (upsertOp rule uid (Some (c_name c)) now) ds))"

definition snoozedUntilIffSnoozed :: "ReminderInstance \<Rightarrow> bool" where
  "snoozedUntilIffSnoozed i = ((i_snoozedUntil i \<noteq> None) = (i_status i = snoozed))"

definition now0 :: date where
  "now0 = MakeDate (MakeDay 2025 0 15) 34200000"

definition later0 :: date where
  "later0 = MakeDate (MakeDay 2025 0 15) 64800000"

definition ruleA :: LeanReminderRule where
  "ruleA =
     \<lparr> r_id = ''r1'', r_userId = ''u1'', r_contactId = ''c1'', r_type = follow_up,
       r_fixedDate = None, r_intervalDays = Some 30, r_intervalAnchor = Some creation,
       r_customAnchorDate = None, r_priority = medium, r_isActive = True,
       r_notifyDaysBefore = Some [0], r_customTitle = None,
       r_createdAt = MakeDate (MakeDay 2025 0 15) 1000 \<rparr>"

definition ruleB :: LeanReminderRule where
  \<comment> \<open>its contact does not exist\<close>
  "ruleB =
     \<lparr> r_id = ''r2'', r_userId = ''u1'', r_contactId = ''c9'', r_type = birthday,
       r_fixedDate = Some \<lparr> md_month = 2, md_day = 1, md_year = None \<rparr>,
       r_intervalDays = None, r_intervalAnchor = None, r_customAnchorDate = None,
       r_priority = high, r_isActive = True, r_notifyDaysBefore = Some [0],
       r_customTitle = None, r_createdAt = MakeDate (MakeDay 2025 0 15) 1000 \<rparr>"

definition hugeIntervalRule :: LeanReminderRule where
  \<comment> \<open>an interval that the schema of the rule collection admits, and the request schema
      does not\<close>
  "hugeIntervalRule = ruleA \<lparr> r_intervalDays := Some 100000000 \<rparr>"

definition contactAnn :: Contact where
  "contactAnn = \<lparr> c_id = ''c1'', c_userId = ''u1'', c_name = ''Ann'', c_lastContactedAt = None \<rparr>"

definition exampleNewId :: "ReminderInstance list \<Rightarrow> objectId" where
  "exampleNewId coll = CHR ''i'' # digits (length coll)"

definition instanceA :: "date \<Rightarrow> ReminderInstance" where
  "instanceA now = insertedDoc (exampleNewId []) (upsertOp ruleA ''u1'' None now (newDate 2025 0 45))"

definition instanceU :: ReminderInstance where
  "instanceU = insertedDoc (exampleNewId [])
     (upsertOp ruleA ''u1'' (Some ''Ann'') now0 (newDate 2025 0 45))"

definition instanceA2 :: ReminderInstance where
  "instanceA2 = insertedDoc (exampleNewId [snoozedExample])
     (upsertOp ruleA ''u1'' None now0 (newDate 2025 0 45))"

definition instanceU2 :: ReminderInstance where
  "instanceU2 = insertedDoc (exampleNewId [snoozedExample])
     (upsertOp ruleA ''u1'' (Some ''Ann'') now0 (newDate 2025 0 45))"

section \<open>Properties of the calendar and of the date functions\<close>

lemma yearDown_le: "DayFromYear (yearDown d y) \<le> d"
proof (induction d y rule: yearDown.induct)
  case (1 d y)
  then show ?case by (subst yearDown.simps) simp
qed

lemma yearUp_bounds:
  "DayFromYear y \<le> d \<Longrightarrow>
   DayFromYear (yearUp d y) \<le> d \<and> d < DayFromYear (yearUp d y + 1)"
proof (induction d y rule: yearUp.induct)
  case (1 d y)
  show ?case
  proof (cases "DayFromYear (y + 1) \<le> d")
    case True
    with "1.IH" show ?thesis by (subst (1 2) yearUp.simps) simp
  next
    case False
    with "1.prems" show ?thesis by (subst (1 2) yearUp.simps) simp
  qed
qed

lemma YearFromDay_bounds:
  "DayFromYear (YearFromDay d) \<le> d" "d < DayFromYear (YearFromDay d + 1)"
  unfolding YearFromDay_def using yearUp_bounds [OF yearDown_le] by blast+

lemma DayFromYear_mono_aux: "0 \<le> k \<Longrightarrow> DayFromYear y \<le> DayFromYear (y + k)"
proof (induction k rule: int_ge_induct)
  case base
  then show ?case by simp
next
  case (step i)
  have "DayFromYear (y + (i + 1)) = DayFromYear (y + i + 1)" by (simp add: add.assoc)
  also have "\<dots> > DayFromYear (y + i)" by (rule DayFromYear_less_Suc)
  finally show ?case using step by simp
qed

lemma DayFromYear_mono: "y \<le> y' \<Longrightarrow> DayFromYear y \<le> DayFromYear y'"
  using DayFromYear_mono_aux [of "y' - y" y] by simp

lemma YearFromDay_unique:
  assumes "DayFromYear y \<le> d" "d < DayFromYear (y + 1)"
  shows "YearFromDay d = y"
proof (rule ccontr)
  assume ne: "YearFromDay d \<noteq> y"
  show False
  proof (cases "YearFromDay d < y")
    case True
    then have "DayFromYear (YearFromDay d + 1) \<le> DayFromYear y"
      by (intro DayFromYear_mono) simp
    with YearFromDay_bounds(2) [of d] assms(1) show False by simp
  next
    case False
    with ne have "DayFromYear (y + 1) \<le> DayFromYear (YearFromDay d)"
      by (intro DayFromYear_mono) simp
    with YearFromDay_bounds(1) [of d] assms(2) show False by simp
  qed
qed

lemma DayWithinYear_bounds: "0 \<le> DayWithinYear d" "DayWithinYear d < DaysInYear (YearFromDay d)"
  using YearFromDay_bounds [of d] DayFromYear_step [of "YearFromDay d"]
  by (simp_all add: DayWithinYear_def)

lemma monthOf_range: "0 \<le> monthOf leap w" "monthOf leap w \<le> 11"
  by (simp_all add: monthOf_def)

lemma monthOf_bounds:
  assumes "0 \<le> w" "w < (if leap then 366 else 365)"
  shows "monthStart leap (monthOf leap w) \<le> w"
    and "w < monthStart leap (monthOf leap w) + daysInMonth leap (monthOf leap w)"
  using assms by (cases leap; simp add: monthOf_def monthStart_def daysInMonth_def)+

lemma monthOf_start:
  assumes "0 \<le> m" "m \<le> 11" "0 \<le> k" "k < daysInMonth leap m"
  shows "monthOf leap (monthStart leap m + k) = m"
proof -
  from assms(1,2) have "m = 0 \<or> m = 1 \<or> m = 2 \<or> m = 3 \<or> m = 4 \<or> m = 5 \<or> m = 6
      \<or> m = 7 \<or> m = 8 \<or> m = 9 \<or> m = 10 \<or> m = 11" by arith
  then show ?thesis
    using assms(3,4)
    by (elim disjE; cases leap; simp add: monthOf_def monthStart_def daysInMonth_def)
qed

lemma MonthFromDay_range: "0 \<le> MonthFromDay d" "MonthFromDay d \<le> 11"
  by (simp_all add: MonthFromDay_def monthOf_range)

lemma DateFromDay_range:
  "1 \<le> DateFromDay d"
  "DateFromDay d \<le> daysInMonth (isLeapYear (YearFromDay d)) (MonthFromDay d)"
  using DayWithinYear_bounds [of d]
    monthOf_bounds [of "DayWithinYear d" "isLeapYear (YearFromDay d)"]
  by (simp_all add: DateFromDay_def MonthFromDay_def DaysInYear_def)

lemma MakeDay_civil:
  "MakeDay (YearFromDay d) (MonthFromDay d) (DateFromDay d + n) = d + n"
proof -
  have "MonthFromDay d div 12 = 0" "MonthFromDay d mod 12 = MonthFromDay d"
    using MonthFromDay_range [of d] by simp_all
  then show ?thesis
    by (simp add: MakeDay_def DateFromDay_def DayWithinYear_def)
qed

lemma monthStart_span:
  assumes "0 \<le> m" "m \<le> 11"
  shows "0 \<le> monthStart leap m"
    and "monthStart leap m + daysInMonth leap m \<le> (if leap then 366 else 365)"
proof -
  from assms have "m = 0 \<or> m = 1 \<or> m = 2 \<or> m = 3 \<or> m = 4 \<or> m = 5 \<or> m = 6
      \<or> m = 7 \<or> m = 8 \<or> m = 9 \<or> m = 10 \<or> m = 11" by arith
  then show "0 \<le> monthStart leap m"
    and "monthStart leap m + daysInMonth leap m \<le> (if leap then 366 else 365)"
    by (elim disjE; cases leap; simp add: monthStart_def daysInMonth_def)+
qed

lemma MakeDay_plain:
  assumes "0 \<le> m" "m \<le> 11"
  shows "MakeDay y m dt = DayFromYear y + monthStart (isLeapYear y) m + dt - 1"
proof -
  have "m div 12 = 0" "m mod 12 = m" using assms by simp_all
  then show ?thesis by (simp add: MakeDay_def)
qed

lemma civil_of_MakeDay:
  assumes m: "0 \<le> m" "m \<le> 11" and dt: "1 \<le> dt" "dt \<le> daysInMonth (isLeapYear y) m"
  shows "YearFromDay (MakeDay y m dt) = y"
    and "MonthFromDay (MakeDay y m dt) = m"
    and "DateFromDay (MakeDay y m dt) = dt"
proof -
  let ?d = "MakeDay y m dt"
  let ?l = "isLeapYear y"
  have d: "?d = DayFromYear y + (monthStart ?l m + (dt - 1))"
    using MakeDay_plain [OF m] by simp
  have lo: "DayFromYear y \<le> ?d"
    unfolding d using monthStart_span(1) [OF m, of ?l] dt by simp
  have hi: "?d < DayFromYear (y + 1)"
    unfolding d DayFromYear_step DaysInYear_def
    using monthStart_span(2) [OF m, of ?l] dt by (simp split: if_splits)
  show Y: "YearFromDay ?d = y" by (rule YearFromDay_unique [OF lo hi])
  have w: "DayWithinYear ?d = monthStart ?l m + (dt - 1)"
    unfolding DayWithinYear_def Y using d by simp
  show M: "MonthFromDay ?d = m"
    unfolding MonthFromDay_def Y w using monthOf_start [OF m, of "dt - 1" ?l] dt by simp
  show "DateFromDay ?d = dt"
    unfolding DateFromDay_def Y M w by simp
qed

lemma msPerDay_pos: "0 < msPerDay"
  by (simp add: msPerDay_def)

lemma Day_MakeDate: "0 \<le> tm \<Longrightarrow> tm < msPerDay \<Longrightarrow> Day (MakeDate dy tm) = dy"
  using msPerDay_pos by (simp add: Day_def MakeDate_def div_pos_pos_trivial)

lemma TimeWithinDay_MakeDate:
  "0 \<le> tm \<Longrightarrow> tm < msPerDay \<Longrightarrow> TimeWithinDay (MakeDate dy tm) = tm"
  using msPerDay_pos by (simp add: TimeWithinDay_def MakeDate_def mod_pos_pos_trivial)

lemma TimeWithinDay_range: "0 \<le> TimeWithinDay t" "TimeWithinDay t < msPerDay"
  using msPerDay_pos by (simp_all add: TimeWithinDay_def)

lemma MakeDate_Day: "MakeDate (Day t) (TimeWithinDay t) = t"
  by (simp add: MakeDate_def Day_def TimeWithinDay_def)

lemma addDays_eq: "addDays t n = t + n * msPerDay"
proof (cases "n = 0")
  case True
  then show ?thesis by (simp add: addDays_def)
next
  case False
  have "MakeDate (Day t + n) (TimeWithinDay t) = t + n * msPerDay"
    using MakeDate_Day [of t] by (simp add: MakeDate_def algebra_simps)
  with False show ?thesis
    by (simp add: addDays_def setDateOfMonth_def getFullYear_def getMonth_def getDate_def
        MakeDay_civil)
qed

lemma startOfDay_idem: "startOfDay (startOfDay t) = startOfDay t"
  using msPerDay_pos by (simp add: startOfDay_def Day_MakeDate)

lemma Day_startOfDay: "Day (startOfDay t) = Day t"
  using msPerDay_pos by (simp add: startOfDay_def Day_MakeDate)

lemma startOfDay_le: "startOfDay t \<le> t"
  using MakeDate_Day [of t] TimeWithinDay_range(1) [of t]
  by (simp add: startOfDay_def MakeDate_def)

lemma daysInMonth_le_31: "daysInMonth leap m \<le> 31"
  by (simp add: daysInMonth_def)

lemma daysInMonth_ge_28: "28 \<le> daysInMonth leap m"
  by (simp add: daysInMonth_def)

lemma YearFromDay_MakeDay_overflow:
  assumes m: "0 \<le> m" "m \<le> 11" and dt: "1 \<le> dt" "dt \<le> 31"
  shows "YearFromDay (MakeDay y m dt) = y"
proof -
  let ?l = "isLeapYear y"
  have d: "MakeDay y m dt = DayFromYear y + (monthStart ?l m + (dt - 1))"
    using MakeDay_plain [OF m] by simp
  from m have "m = 0 \<or> m = 1 \<or> m = 2 \<or> m = 3 \<or> m = 4 \<or> m = 5 \<or> m = 6
      \<or> m = 7 \<or> m = 8 \<or> m = 9 \<or> m = 10 \<or> m = 11" by arith
  then have b: "monthStart ?l m + 31 \<le> (if ?l then 366 else 365)"
    by (elim disjE; cases ?l; simp add: monthStart_def)
  have lo: "DayFromYear y \<le> MakeDay y m dt"
    unfolding d using monthStart_span(1) [OF m, of ?l] dt by simp
  have hi: "MakeDay y m dt < DayFromYear (y + 1)"
    unfolding d DayFromYear_step DaysInYear_def using b dt by (simp split: if_splits)
  show ?thesis by (rule YearFromDay_unique [OF lo hi])
qed

lemma getDaysInMonth_eq:
  assumes m: "0 \<le> m" "m \<le> 11" and dt: "1 \<le> dt" "dt \<le> daysInMonth (isLeapYear y) m"
    and tm: "0 \<le> tm" "tm < msPerDay"
  shows "getDaysInMonth (MakeDate (MakeDay y m dt) tm) = daysInMonth (isLeapYear y) m"
proof -
  let ?l = "isLeapYear y"
  have last: "MakeDay y (m + 1) 0 = MakeDay y m (daysInMonth ?l m)"
  proof (cases "m = 11")
    case True
    have "MakeDay y 12 0 = DayFromYear (y + 1) - 1"
      by (simp add: MakeDay_def monthStart_def)
    moreover have "MakeDay y 11 31 = DayFromYear y + 334 + (if ?l then 1 else 0) + 30"
      by (simp add: MakeDay_def monthStart_def)
    ultimately show ?thesis
      using True by (simp add: DayFromYear_step DaysInYear_def daysInMonth_def)
  next
    case False
    with m have m': "0 \<le> m + 1" "m + 1 \<le> 11" by simp_all
    from m False have "m = 0 \<or> m = 1 \<or> m = 2 \<or> m = 3 \<or> m = 4 \<or> m = 5 \<or> m = 6
      \<or> m = 7 \<or> m = 8 \<or> m = 9 \<or> m = 10" by arith
    then have "monthStart ?l (m + 1) = monthStart ?l m + daysInMonth ?l m"
      by (elim disjE; cases ?l; simp add: monthStart_def daysInMonth_def)
    then show ?thesis
      by (simp add: MakeDay_plain [OF m] MakeDay_plain [OF m'])
  qed
  have dim: "1 \<le> daysInMonth ?l m" using daysInMonth_ge_28 [of ?l m] by simp
  show ?thesis
    unfolding getDaysInMonth_def getFullYear_def getMonth_def Day_MakeDate [OF tm]
      civil_of_MakeDay [OF m dt] last
    using civil_of_MakeDay(3) [OF m dim order_refl] by simp
qed

lemma fixedEventDate_eq:
  assumes "1 \<le> month" "month \<le> 12"
  shows "fixedEventDate ws year month day = MakeDate (MakeDay year (month - 1) day) 0"
proof -
  define tw where "tw = TimeWithinDay ws"
  have tw: "0 \<le> tw" "tw < msPerDay" using TimeWithinDay_range by (simp_all add: tw_def)
  define m0 d0 where "m0 = getMonth ws" and "d0 = getDate ws"
  have m0: "0 \<le> m0" "m0 \<le> 11"
    using MonthFromDay_range by (simp_all add: m0_def getMonth_def)
  have d0: "1 \<le> d0" "d0 \<le> 31"
    using DateFromDay_range [of "Day ws"] daysInMonth_le_31
    by (simp_all add: d0_def getDate_def getMonth_def order_trans)
  define t1 where "t1 = setYear ws year"
  have t1: "t1 = MakeDate (MakeDay year m0 d0) tw"
    by (simp add: t1_def setYear_def setFullYear_def m0_def d0_def tw_def)
  have y1: "getFullYear t1 = year"
    unfolding t1 getFullYear_def Day_MakeDate [OF tw]
    by (rule YearFromDay_MakeDay_overflow [OF m0 d0])
  have tw1: "TimeWithinDay t1 = tw"
    unfolding t1 by (rule TimeWithinDay_MakeDate [OF tw])
  define d1 where "d1 = getDate t1"
  have d1: "1 \<le> d1"
    using DateFromDay_range(1) [of "Day t1"] by (simp add: d1_def getDate_def)
  define m where "m = month - 1"
  have m: "0 \<le> m" "m \<le> 11" using assms by (simp_all add: m_def)
  let ?dim = "daysInMonth (isLeapYear year) m"
  have mid: "getDaysInMonth (MakeDate (MakeDay year m 15) 0) = ?dim"
    using getDaysInMonth_eq [OF m, of 15 year 0] daysInMonth_ge_28 [of "isLeapYear year" m]
      msPerDay_pos by simp
  define d2 where "d2 = min d1 ?dim"
  have d2: "1 \<le> d2" "d2 \<le> ?dim"
    using d1 daysInMonth_ge_28 [of "isLeapYear year" m] by (simp_all add: d2_def)
  define t2 where "t2 = setMonth t1 m"
  have t2: "t2 = MakeDate (MakeDay year m d2) tw"
    by (simp add: t2_def setMonth_def Let_def y1 mid setMonthDate_def tw1 d1_def d2_def)
  have c2: "getFullYear t2 = year" "getMonth t2 = m" "TimeWithinDay t2 = tw"
    unfolding t2 getFullYear_def getMonth_def Day_MakeDate [OF tw]
    using civil_of_MakeDay [OF m d2] TimeWithinDay_MakeDate [OF tw] by simp_all
  have "setDate t2 day = MakeDate (MakeDay year m day) tw"
    by (simp add: setDate_def setDateOfMonth_def c2)
  then have "startOfDay (setDate t2 day) = MakeDate (MakeDay year m day) 0"
    by (simp add: startOfDay_def Day_MakeDate [OF tw])
  then show ?thesis
    by (simp add: fixedEventDate_def Let_def t1_def t2_def m_def)
qed

section \<open>Properties of the recurrence calculator\<close>

lemma setDateOfMonth_shift: "setDateOfMonth t (getDate t + n) = t + n * msPerDay"
proof -
  have "MakeDate (Day t + n) (TimeWithinDay t) = t + n * msPerDay"
    using MakeDate_Day [of t] by (simp add: MakeDate_def algebra_simps)
  then show ?thesis
    by (simp add: setDateOfMonth_def getFullYear_def getMonth_def getDate_def MakeDay_civil)
qed

lemma midnight_eq: "TimeWithinDay t = 0 \<Longrightarrow> t = Day t * msPerDay"
  using MakeDate_Day [of t] by (simp add: MakeDate_def)

lemma TimeWithinDay_startOfDay: "TimeWithinDay (startOfDay t) = 0"
  using msPerDay_pos by (simp add: startOfDay_def TimeWithinDay_MakeDate)

lemma TimeWithinDay_addDays: "TimeWithinDay (addDays t n) = TimeWithinDay t"
  by (simp add: addDays_eq TimeWithinDay_def)

lemma Day_addDays: "Day (addDays t n) = Day t + n"
  using msPerDay_pos by (simp add: addDays_eq Day_def)

lemma differenceInDays_midnight:
  assumes "TimeWithinDay l = 0" "TimeWithinDay r = 0"
  shows "differenceInDays l r = Day l - Day r"
proof -
  define k where "k = Day l - Day r"
  have l: "l = Day l * msPerDay" and r: "r = Day r * msPerDay"
    using assms by (simp_all add: midnight_eq)
  have lr: "l - r = k * msPerDay"
    using l r by (simp add: k_def algebra_simps)
  have sign: "compareLocalAsc l r = sgn k"
    using msPerDay_pos by (simp add: compareLocalAsc_def lr sgn_mult)
  have diff: "differenceInCalendarDays l r = k"
    by (simp add: differenceInCalendarDays_def Day_startOfDay k_def)
  have sk: "sgn k * \<bar>k\<bar> = k" by (simp add: mult_sgn_abs)
  have "setDateOfMonth l (getDate l - sgn k * \<bar>k\<bar>) = l + (- k) * msPerDay"
    using setDateOfMonth_shift [of l "- k"] by (simp add: sk)
  also have "\<dots> = r" using lr by simp
  finally have l': "setDateOfMonth l (getDate l - sgn k * \<bar>k\<bar>) = r" .
  have "differenceInDays l r = sgn k * (\<bar>k\<bar> - (if 0 = - sgn k then 1 else 0))"
    unfolding differenceInDays_def Let_def sign diff l'
    by (simp add: compareLocalAsc_def)
  also have "\<dots> = k"
    using sk by (cases "k = 0") (simp_all add: sgn_if)
  finally show ?thesis by (simp add: k_def)
qed

lemma advanceToWindow_done:
  "\<not> nextDueDate < windowStart \<Longrightarrow>
   advanceToWindow intervalDays windowStart nextDueDate = Some nextDueDate"
  by (subst advanceToWindow.simps) (simp add: isBefore_def)

lemma next_multiple_gt:
  fixes k n :: int
  assumes "0 < n"
  shows "k < (k div n + 1) * n"
proof -
  have "k div n * n + k mod n = k" by (rule div_mult_mod_eq)
  moreover have "k mod n < n" using assms by simp
  ultimately have "k < k div n * n + n" by linarith
  then show ?thesis by (simp add: algebra_simps)
qed

lemma firstDueDate_eq:
  assumes "0 < intervalDays" "TimeWithinDay windowStart = 0" "TimeWithinDay anchorDate = 0"
  shows "firstDueDate intervalDays windowStart anchorDate =
           Some (addDays anchorDate
                   (((Day windowStart - Day anchorDate) div intervalDays + 1) * intervalDays))"
    and "windowStart <
           addDays anchorDate
             (((Day windowStart - Day anchorDate) div intervalDays + 1) * intervalDays)"
proof -
  define k where "k = Day windowStart - Day anchorDate"
  define n where "n = (k div intervalDays + 1) * intervalDays"
  have kn: "k < n" unfolding n_def by (rule next_multiple_gt [OF assms(1)])
  have "windowStart = anchorDate + k * msPerDay"
    using midnight_eq [OF assms(2)] midnight_eq [OF assms(3)] by (simp add: k_def algebra_simps)
  also have "\<dots> < anchorDate + n * msPerDay"
    using kn msPerDay_pos by simp
  finally show less: "windowStart <
           addDays anchorDate
             (((Day windowStart - Day anchorDate) div intervalDays + 1) * intervalDays)"
    by (simp add: addDays_eq n_def k_def)
  then show "firstDueDate intervalDays windowStart anchorDate =
           Some (addDays anchorDate
                   (((Day windowStart - Day anchorDate) div intervalDays + 1) * intervalDays))"
    by (simp add: firstDueDate_def Let_def differenceInDays_midnight [OF assms(2,3)]
        advanceToWindow_done)
qed

lemma generateDues_step:
  "inTimeRange nextDueDate \<Longrightarrow> nextDueDate \<le> windowEnd \<Longrightarrow>
   generateDues intervalDays offs windowStart windowEnd nextDueDate acc =
     generateDues intervalDays offs windowStart windowEnd (addDays nextDueDate intervalDays)
       (acc @ notifyDatesInWindow offs nextDueDate windowStart windowEnd)"
  by (subst generateDues.simps) (simp add: isAfter_def)

lemma generateDues_stop:
  "inTimeRange nextDueDate \<Longrightarrow> windowEnd < nextDueDate \<Longrightarrow>
   generateDues intervalDays offs windowStart windowEnd nextDueDate acc = Some acc"
  by (subst generateDues.simps) (simp add: isAfter_def)

lemma notifyDatesInWindow_mem:
  "d \<in> set (notifyDatesInWindow offs e ws we) \<longleftrightarrow>
     (\<exists>off \<in> set offs. d = addDays e (- off) \<and> ws \<le> d \<and> d \<le> we)"
  by (auto simp add: notifyDatesInWindow_def Let_def isBefore_def isAfter_def)

lemma getFullYear_newDate:
  assumes "0 \<le> m" "m \<le> 11" "1 \<le> dt" "dt \<le> daysInMonth (isLeapYear y) m"
  shows "getFullYear (newDate y m dt) = y"
  using civil_of_MakeDay(1) [OF assms] msPerDay_pos
  by (simp add: getFullYear_def newDate_def Day_MakeDate)

lemma newDate_less_iff:
  "newDate y m d < newDate y' m' d' \<longleftrightarrow> MakeDay y m d < MakeDay y' m' d'"
  using msPerDay_pos by (simp add: newDate_def MakeDate_def)

lemma newDate_le_iff:
  "newDate y m d \<le> newDate y' m' d' \<longleftrightarrow> MakeDay y m d \<le> MakeDay y' m' d'"
  using msPerDay_pos by (simp add: newDate_def MakeDate_def)

lemma newDate_eq_iff:
  "newDate y m d = newDate y' m' d' \<longleftrightarrow> MakeDay y m d = MakeDay y' m' d'"
  using msPerDay_pos by (simp add: newDate_def MakeDate_def)

lemma addDays_newDate: "addDays (newDate y m d) n = newDate y m (d + n)"
  by (simp add: addDays_eq newDate_def MakeDate_def MakeDay_def Let_def algebra_simps)

lemma TimeWithinDay_newDate: "TimeWithinDay (newDate y m d) = 0"
  using msPerDay_pos by (simp add: newDate_def TimeWithinDay_MakeDate)

lemma Day_newDate: "Day (newDate y m d) = MakeDay y m d"
  using msPerDay_pos by (simp add: newDate_def Day_MakeDate)

lemma clockInRange_newDate:
  assumes "1970 \<le> y" "y \<le> 2100" "0 \<le> m" "m \<le> 11" "- 1000 \<le> d" "d \<le> 1000"
  shows "clockInRange (newDate y m d)"
proof -
  have a: "DayFromYear 1970 \<le> DayFromYear y" "DayFromYear y \<le> DayFromYear 2100"
    using assms(1,2) by (simp_all add: DayFromYear_mono)
  have b: "DayFromYear 1970 = 0" "DayFromYear 2100 = 47482"
    by (simp_all add: DayFromYear_def)
  have c: "0 \<le> monthStart (isLeapYear y) m" "monthStart (isLeapYear y) m \<le> 366"
    using monthStart_span [OF assms(3,4), of "isLeapYear y"] daysInMonth_ge_28 [of "isLeapYear y" m]
    by (simp_all split: if_splits)
  have "- 1001 \<le> MakeDay y m d" "MakeDay y m d \<le> 48848"
    using a b c assms(5,6) by (simp_all add: MakeDay_plain [OF assms(3,4)])
  then show ?thesis
    by (simp add: clockInRange_def maxTimeValue_def newDate_def MakeDate_def msPerDay_def)
qed

lemma clockInRange_inTimeRange: "clockInRange t \<Longrightarrow> inTimeRange t"
  using msPerDay_pos unfolding clockInRange_def inTimeRange_def by linarith

lemma inTimeRange_newDate:
  assumes "1970 \<le> y" "y \<le> 2100" "0 \<le> m" "m \<le> 11" "- 1000 \<le> d" "d \<le> 1000"
  shows "inTimeRange (newDate y m d)"
  using clockInRange_newDate [OF assms] by (rule clockInRange_inTimeRange)

lemma clockInRange_window:
  assumes "clockInRange now"
  shows "windowInRange (startOfDay now) (addDays (startOfDay now) (MATERIALIZATION_WINDOW plan))"
proof -
  have "TimeWithinDay now < msPerDay" "0 \<le> TimeWithinDay now"
    by (rule TimeWithinDay_range)+
  moreover have "startOfDay now + TimeWithinDay now = now"
    using MakeDate_Day [of now] by (simp add: startOfDay_def MakeDate_def)
  moreover have "MATERIALIZATION_WINDOW plan = 30 \<or> MATERIALIZATION_WINDOW plan = 90"
    by (cases plan) (simp_all add: MATERIALIZATION_WINDOW_def)
  ultimately show ?thesis
    using assms msPerDay_pos
    unfolding windowInRange_def clockInRange_def addDays_eq
    by (auto simp add: TimeWithinDay_startOfDay)
qed

lemma newDate_simps:
  "newDate y m d \<le> newDate y m d' \<longleftrightarrow> d \<le> d'"
  "newDate y m d < newDate y m d' \<longleftrightarrow> d < d'"
  "newDate y m d = newDate y m d' \<longleftrightarrow> d = d'"
  by (auto simp add: newDate_le_iff newDate_less_iff newDate_eq_iff MakeDay_def Let_def)



lemma startOfDay_MakeDate:
  "0 \<le> tm \<Longrightarrow> tm < msPerDay \<Longrightarrow> startOfDay (MakeDate (MakeDay y m d) tm) = newDate y m d"
  by (simp add: startOfDay_def Day_MakeDate newDate_def)

lemma scenario_days:
  "startOfDay now0 = newDate 2025 0 15" "startOfDay later0 = newDate 2025 0 15"
  "startOfDay (r_createdAt ruleA) = newDate 2025 0 15"
  by (simp_all add: now0_def later0_def ruleA_def startOfDay_MakeDate msPerDay_def)

lemma dueDatesUpTo_stop:
  assumes "0 < step" "windowEnd < first"
  shows "dueDatesUpTo first step windowEnd = []"
proof -
  have "(windowEnd - first) div step < 0"
    using assms by (simp add: pos_imp_zdiv_neg_iff)
  then show ?thesis by (simp add: dueDatesUpTo_def)
qed

lemma dueDatesUpTo_step:
  assumes "0 < step" "first \<le> windowEnd"
  shows "dueDatesUpTo first step windowEnd = first # dueDatesUpTo (first + step) step windowEnd"
proof -
  define q where "q = (windowEnd - first) div step"
  have q: "0 \<le> q" using assms by (simp add: q_def pos_imp_zdiv_nonneg_iff)
  have "windowEnd - (first + step) = (windowEnd - first) + (- 1) * step" by simp
  then have "(windowEnd - (first + step)) div step = q - 1"
    using assms(1) unfolding q_def by (simp only: div_mult_self1)
  then have n': "nat ((windowEnd - (first + step)) div step + 1) = nat q" by simp
  have n: "nat ((windowEnd - first) div step + 1) = Suc (nat q)"
    using q by (simp add: q_def nat_add_distrib)
  have u: "[0 ..< Suc (nat q)] = 0 # map Suc [0 ..< nat q]"
    by (simp add: upt_conv_Cons map_Suc_upt del: upt_Suc)
  show ?thesis
    unfolding dueDatesUpTo_def n n' u
    by (simp add: algebra_simps)
qed

text \<open>
  The second loop in closed form: as long as the dates stay in the range of time values,
  it returns, with the notify dates of the due dates \<open>nextDueDate\<close>,
  \<open>nextDueDate + intervalDays\<close>, ... up to \<open>windowEnd\<close>.
\<close>

lemma generateDues_closed:
  assumes "0 < intervalDays" "windowEnd + intervalDays * msPerDay \<le> maxTimeValue"
  shows "- maxTimeValue \<le> nextDueDate \<Longrightarrow> nextDueDate \<le> maxTimeValue \<Longrightarrow>
     generateDues intervalDays offs windowStart windowEnd nextDueDate acc =
       Some (acc @ concat (map (\<lambda>d. notifyDatesInWindow offs d windowStart windowEnd)
                    (dueDatesUpTo nextDueDate (intervalDays * msPerDay) windowEnd)))"
proof (induction "nat (windowEnd + 1 - nextDueDate)" arbitrary: nextDueDate acc rule: less_induct)
  case less
  have s: "0 < intervalDays * msPerDay" using assms(1) msPerDay_pos by simp
  have v: "inTimeRange nextDueDate" using less.prems by (simp add: inTimeRange_def)
  show ?case
  proof (cases "nextDueDate \<le> windowEnd")
    case True
    let ?n = "addDays nextDueDate intervalDays"
    have n: "?n = nextDueDate + intervalDays * msPerDay" by (simp add: addDays_eq)
    have "nat (windowEnd + 1 - ?n) < nat (windowEnd + 1 - nextDueDate)"
      using True s by (simp add: n)
    moreover have "- maxTimeValue \<le> ?n" using less.prems(1) s by (simp add: n)
    moreover have "?n \<le> maxTimeValue" using True assms(2) by (simp add: n)
    ultimately have "generateDues intervalDays offs windowStart windowEnd ?n
        (acc @ notifyDatesInWindow offs nextDueDate windowStart windowEnd) =
       Some ((acc @ notifyDatesInWindow offs nextDueDate windowStart windowEnd)
             @ concat (map (\<lambda>d. notifyDatesInWindow offs d windowStart windowEnd)
                    (dueDatesUpTo ?n (intervalDays * msPerDay) windowEnd)))"
      by (rule less.hyps)
    then show ?thesis
      by (simp add: generateDues_step [OF v True] dueDatesUpTo_step [OF s True] n)
  next
    case False
    then have "windowEnd < nextDueDate" by simp
    then show ?thesis
      by (simp add: generateDues_stop [OF v] dueDatesUpTo_stop [OF s])
  qed
qed

lemma generateDues_Some_inTimeRange:
  assumes "generateDues intervalDays offs windowStart windowEnd nextDueDate acc = Some ds"
  shows "inTimeRange nextDueDate"
proof (rule generateDues.raw_induct
    [where P = "\<lambda>iv offs ws we nxt acc ds. inTimeRange nxt", OF _ assms], goal_cases)
  case (1 f iv offs ws we nxt acc ds)
  show ?case
  proof (rule ccontr)
    assume n: "\<not> inTimeRange nxt"
    with 1(2) have "f iv offs ws we nxt (acc @ map (\<lambda>offset. nxt) offs) = Some ds" by simp
    from 1(1) [OF this] n show False by simp
  qed
qed

text \<open>On the Invalid Date the second loop does not return.\<close>

lemma generateDues_invalid:
  "\<not> inTimeRange nextDueDate \<Longrightarrow>
   generateDues intervalDays offs windowStart windowEnd nextDueDate acc = None"
  using generateDues_Some_inTimeRange [of intervalDays offs windowStart windowEnd nextDueDate acc]
  by (cases "generateDues intervalDays offs windowStart windowEnd nextDueDate acc") auto

lemma feb29_is_mar1: "\<not> isLeapYear year \<Longrightarrow> MakeDay year 1 29 = MakeDay year 2 1"
  by (simp add: MakeDay_def monthStart_def)

subsection \<open>Fixed dates: February 29 in a non-leap year\<close>

text \<open>
  C1 (as amended).  For a fixed-date rule with (month, day) = (2, 29) and a non-leap
  candidate year, the candidate event date is March 1 of that year, whatever the window
  start: \<open>setDate(29)\<close> on February of a non-leap year overflows into March, and nothing
  maps it back to February 28.  The reminder is not skipped: with a notify-offset 0 the
  date is emitted whenever March 1 of that year lies in the window.  The computation is a
  total function, so it does not throw.
\<close>

theorem feb29_non_leap_event_date:
  assumes "\<not> isLeapYear year"
  shows "fixedEventDate windowStart year 2 29 = newDate year 2 1
       \<and> fixedEventDate windowStart year 2 29 \<noteq> newDate year 1 28
       \<and> (\<forall>rule windowEnd fd.
            r_fixedDate rule = Some fd \<and> md_month fd = 2 \<and> md_day fd = 29
            \<and> 0 \<in> set (notifyOffsetsOf rule)
            \<and> (year = getFullYear windowStart \<or> year = getFullYear windowStart + 1)
            \<and> windowStart \<le> newDate year 2 1 \<and> newDate year 2 1 \<le> windowEnd
            \<longrightarrow> newDate year 2 1 \<in> set (computeFixedDateDues rule windowStart windowEnd))"
proof -
  have e: "fixedEventDate windowStart year 2 29 = newDate year 2 1"
    using fixedEventDate_eq [of 2 windowStart year 29] feb29_is_mar1 [OF assms]
    by (simp add: newDate_def)
  have n: "newDate year 2 1 \<noteq> newDate year 1 28"
    using assms by (simp add: newDate_eq_iff MakeDay_def monthStart_def)
  have "newDate year 2 1 \<in> set (computeFixedDateDues rule windowStart windowEnd)"
    if h: "r_fixedDate rule = Some fd" "md_month fd = 2" "md_day fd = 29"
      "0 \<in> set (notifyOffsetsOf rule)"
      "year = getFullYear windowStart \<or> year = getFullYear windowStart + 1"
      "windowStart \<le> newDate year 2 1" "newDate year 2 1 \<le> windowEnd"
    for rule windowEnd fd
  proof -
    have "newDate year 2 1
        \<in> set (notifyDatesInWindow (notifyOffsetsOf rule)
                 (fixedEventDate windowStart year 2 29) windowStart windowEnd)"
      unfolding notifyDatesInWindow_mem e using h(4,6,7)
      by (intro bexI [of _ 0]) (simp_all add: addDays_eq)
    then show ?thesis
      using h(1,2,3,5) by (auto simp add: computeFixedDateDues_def Let_def)
  qed
  with e n show ?thesis by simp
qed

theorem feb29_non_leap_event_date_witness:
  "\<not> isLeapYear 2025
   \<and> fixedEventDate (newDate 2025 0 15) 2025 2 29 = newDate 2025 2 1
   \<and> newDate 2025 2 1
       \<in> set (computeFixedDateDues birthdayRule (newDate 2025 0 15) (addDays (newDate 2025 0 15) 90))"
proof -
  have nl: "\<not> isLeapYear 2025" by (simp add: isLeapYear_def)
  have y: "getFullYear (newDate 2025 0 15) = 2025"
    by (rule getFullYear_newDate) (simp_all add: daysInMonth_def)
  have lo: "newDate 2025 0 15 \<le> newDate 2025 2 1"
    by (simp add: newDate_le_iff MakeDay_def monthStart_def)
  have hi: "newDate 2025 2 1 \<le> addDays (newDate 2025 0 15) 90"
    by (simp add: addDays_newDate newDate_le_iff MakeDay_def monthStart_def isLeapYear_def)
  have r: "r_fixedDate birthdayRule = Some \<lparr> md_month = 2, md_day = 29, md_year = None \<rparr>"
    "0 \<in> set (notifyOffsetsOf birthdayRule)"
    by (simp_all add: birthdayRule_def notifyOffsetsOf_def)
  from feb29_non_leap_event_date [OF nl, of "newDate 2025 0 15"] nl y lo hi r
  show ?thesis by auto
qed

text \<open>
  C1 as stated fails: for the window starting 15 January 2025 the candidate event date of
  a (2, 29) rule in the non-leap year 2025 is not February 28.
\<close>

theorem feb29_feb28_counterexample:
  "\<not> isLeapYear 2025
   \<and> fixedEventDate (newDate 2025 0 15) 2025 2 29 \<noteq> newDate 2025 1 28"
  using fixedEventDate_eq [of 2 "newDate 2025 0 15" 2025 29]
  by (simp add: newDate_def MakeDate_def MakeDay_def DayFromYear_def monthStart_def
      isLeapYear_def msPerDay_def)

subsection \<open>Intervals: the first due date\<close>

text \<open>
  C2.  The code at the claim's failing input.  With \<open>intervalDays = 30\<close> and an anchor
  exactly 60 days before the window start, \<open>anchor + 60\<close> is the window start itself, yet
  the first due date computed is \<open>anchor + 90\<close>: the code takes
  \<open>floor(days / interval) + 1\<close> intervals, which is the ceiling only when the days since
  the anchor are not a multiple of the interval.  The claim's own example (anchor 45 days
  back, first due date \<open>anchor + 60\<close>) holds.
\<close>

theorem firstDueDate_exact_multiple:
  "firstDueDate 30 (newDate 2025 0 15) (addDays (newDate 2025 0 15) (- 60))
     = Some (addDays (addDays (newDate 2025 0 15) (- 60)) 90)
   \<and> addDays (addDays (newDate 2025 0 15) (- 60)) 60 = newDate 2025 0 15
   \<and> firstDueDate 30 (newDate 2025 0 15) (addDays (newDate 2025 0 15) (- 45))
     = Some (addDays (addDays (newDate 2025 0 15) (- 45)) 60)"
proof -
  have a: "firstDueDate 30 (newDate 2025 0 15) (addDays (newDate 2025 0 15) (- 60))
     = Some (addDays (addDays (newDate 2025 0 15) (- 60)) 90)"
    by (subst firstDueDate_eq(1))
       (simp_all add: TimeWithinDay_addDays TimeWithinDay_newDate Day_addDays)
  have b: "firstDueDate 30 (newDate 2025 0 15) (addDays (newDate 2025 0 15) (- 45))
     = Some (addDays (addDays (newDate 2025 0 15) (- 45)) 60)"
    by (subst firstDueDate_eq(1))
       (simp_all add: TimeWithinDay_addDays TimeWithinDay_newDate Day_addDays)
  show ?thesis using a b by (simp add: addDays_eq)
qed

subsection \<open>The output list\<close>

lemma notifyDatesInWindow_eq:
  "notifyDatesInWindow offs e ws we = offsetDates offs ws we e"
  unfolding notifyDatesInWindow_def offsetDates_def
  by (induction offs) (simp_all add: Let_def addDays_eq isBefore_def isAfter_def not_less)









lemma computeFixedDateDues_eq:
  assumes "r_fixedDate rule = Some fd" "1 \<le> md_month fd" "md_month fd \<le> 12"
  shows "computeFixedDateDues rule ws we
           = generationOrder (notifyOffsetsOf rule) ws we (fixedDueSequence fd ws)"
  using assms
  by (simp add: computeFixedDateDues_def Let_def generationOrder_def fixedDueSequence_def
      notifyDatesInWindow_eq fixedEventDate_eq newDate_def)

lemma next_multiple_le:
  fixes k n :: int
  assumes "0 < n"
  shows "(k div n + 1) * n \<le> k + n"
proof -
  have "k div n * n + k mod n = k" by (rule div_mult_mod_eq)
  moreover have "0 \<le> k mod n" using assms by simp
  ultimately have "k div n * n \<le> k" by linarith
  then show ?thesis by (simp add: algebra_simps)
qed

lemma TimeWithinDay_resolveAnchorDate: "TimeWithinDay (resolveAnchorDate rule ci) = 0"
  by (simp add: resolveAnchorDate_def TimeWithinDay_startOfDay)

lemma computeFollowUpDues_eq:
  assumes n: "r_intervalDays rule = Some n" "1 \<le> n" "n \<le> 365"
    and w: "windowInRange ws we"
  shows "computeFollowUpDues rule ws we ci
           = Some (generationOrder (notifyOffsetsOf rule) ws we
                     (intervalDueSequence n (resolveAnchorDate rule ci) ws we))"
proof -
  define anchor where "anchor = resolveAnchorDate rule ci"
  define k where "k = Day ws - Day anchor"
  define first where "first = anchor + (k div n + 1) * n * msPerDay"
  have n0: "0 < n" using n(2) by simp
  have ws0: "TimeWithinDay ws = 0" using w by (simp add: windowInRange_def)
  have a0: "TimeWithinDay anchor = 0" by (simp add: anchor_def TimeWithinDay_resolveAnchorDate)
  have fe: "addDays anchor ((k div n + 1) * n) = first"
    by (simp add: addDays_eq first_def)
  have f: "firstDueDate n ws anchor = Some first" and lo: "ws < first"
    using firstDueDate_eq [OF n0 ws0 a0] unfolding k_def [symmetric] fe by simp_all
  have wsk: "ws = anchor + k * msPerDay"
    using midnight_eq [OF ws0] midnight_eq [OF a0] by (simp add: k_def algebra_simps)
  have "(k div n + 1) * n * msPerDay \<le> (k + n) * msPerDay"
    using next_multiple_le [OF n0, of k] msPerDay_pos by simp
  then have hi: "first \<le> ws + n * msPerDay"
    by (simp add: first_def wsk algebra_simps)
  have r: "- maxTimeValue \<le> ws" "ws + 365 * msPerDay \<le> maxTimeValue"
    "we + 365 * msPerDay \<le> maxTimeValue"
    using w msPerDay_pos unfolding windowInRange_def by linarith+
  have nm: "n * msPerDay \<le> 365 * msPerDay" using n(3) msPerDay_pos by simp
  have g: "generateDues n (notifyOffsetsOf rule) ws we first []
      = Some ([] @ concat (map (\<lambda>d. notifyDatesInWindow (notifyOffsetsOf rule) d ws we)
                    (dueDatesUpTo first (n * msPerDay) we)))"
    using lo hi r nm by (intro generateDues_closed [OF n0]) simp_all
  show ?thesis
    using n(1) n0 f g
    by (simp add: computeFollowUpDues_def anchor_def [symmetric] generationOrder_def
        intervalDueSequence_def k_def [symmetric] first_def [symmetric] notifyDatesInWindow_eq)
qed

lemma generationOrder_Nil: "generationOrder offs ws we [] = []"
  by (simp add: generationOrder_def)

lemma computeDueDates_eq:
  assumes s: "withinSchema rule" and w: "windowInRange ws we"
  shows "computeDueDates rule ws we ci
           = Some (generationOrder (notifyOffsetsOf rule) ws we (dueSequence rule ws we ci))"
proof -
  have fx: "computeFixedDateDues rule ws we
      = generationOrder (notifyOffsetsOf rule) ws we
          (case r_fixedDate rule of None \<Rightarrow> [] | Some fd \<Rightarrow> fixedDueSequence fd ws)"
  proof (cases "r_fixedDate rule")
    case None
    then show ?thesis by (simp add: computeFixedDateDues_def generationOrder_Nil)
  next
    case (Some fd)
    with s show ?thesis by (simp add: computeFixedDateDues_eq withinSchema_def)
  qed
  have iv: "computeFollowUpDues rule ws we ci
      = Some (generationOrder (notifyOffsetsOf rule) ws we
          (case r_intervalDays rule of None \<Rightarrow> []
           | Some n \<Rightarrow> intervalDueSequence n (resolveAnchorDate rule ci) ws we))"
  proof (cases "r_intervalDays rule")
    case None
    then show ?thesis by (simp add: computeFollowUpDues_def generationOrder_Nil)
  next
    case (Some n)
    with s have "1 \<le> n" "n \<le> 365" by (simp_all add: withinSchema_def)
    from computeFollowUpDues_eq [OF Some this w] Some show ?thesis by simp
  qed
  have nz: "r_intervalDays rule \<noteq> Some 0" using s by (auto simp add: withinSchema_def)
  show ?thesis
  proof (cases "r_type rule")
    case birthday
    then show ?thesis by (simp add: computeDueDates_def dueSequence_def fx)
  next
    case anniversary
    then show ?thesis by (simp add: computeDueDates_def dueSequence_def fx)
  next
    case follow_up
    then show ?thesis by (simp add: computeDueDates_def dueSequence_def iv)
  next
    case custom
    show ?thesis
    proof (cases "r_fixedDate rule")
      case (Some fd)
      with custom fx show ?thesis by (simp add: computeDueDates_def dueSequence_def)
    next
      case None
      note fd = this
      show ?thesis
      proof (cases "r_intervalDays rule")
        case None
        with fd custom show ?thesis
          by (simp add: computeDueDates_def dueSequence_def generationOrder_Nil)
      next
        case (Some n)
        with nz have "n \<noteq> 0" by auto
        with Some fd custom iv show ?thesis
          by (simp add: computeDueDates_def dueSequence_def)
      qed
    qed
  qed
qed









section \<open>Pruning\<close>

lemma prune_examples:
  "stale pruneNow ''u1'' completedDue40" "\<not> stale pruneNow ''u1'' pendingDue40"
  "stale pruneNow ''u1'' pendingDue91" "\<not> stale pruneNow ''u1'' skippedEarly"
  "stale pruneNow ''u1'' completedLate"
  by (simp_all add: stale_def completedDue40_def pendingDue40_def pendingDue91_def
      skippedEarly_def completedLate_def exampleInstance_def pruneNow_def newDate_def
      MakeDate_def MakeDay_def msPerDay_def)

lemma ttl_examples:
  "\<not> expiredByTTL pruneNow completedDue40" "\<not> expiredByTTL pruneNow pendingDue40"
  "\<not> expiredByTTL pruneNow pendingDue91" "\<not> expiredByTTL pruneNow skippedEarly"
  "\<not> expiredByTTL pruneNow completedLate"
  by (simp_all add: expiredByTTL_def completedDue40_def pendingDue40_def pendingDue91_def
      skippedEarly_def completedLate_def exampleInstance_def addDays_eq msPerDay_def)

lemma pruneStaleInstances_filter:
  "pruneStaleInstances now coll uid
     = (length (filter (stale now uid) coll), filter (\<lambda>i. \<not> stale now uid i) coll)"
proof -
  have "filter (\<lambda>i. \<not> (i_userId i = uid
        \<and> ((i_dueDate i < addDays now (- 30) \<and> (i_status i = completed \<or> i_status i = skipped))
           \<or> i_dueDate i < addDays now (- 90)))) coll = filter (\<lambda>i. \<not> stale now uid i) coll"
    by (rule filter_cong [OF refl]) (auto simp add: stale_def addDays_eq)
  moreover have "filter (\<lambda>i. i_userId i = uid
        \<and> ((i_dueDate i < addDays now (- 30) \<and> (i_status i = completed \<or> i_status i = skipped))
           \<or> i_dueDate i < addDays now (- 90))) coll = filter (stale now uid) coll"
    by (rule filter_cong [OF refl]) (auto simp add: stale_def addDays_eq)
  ultimately show ?thesis
    by (simp only: pruneStaleInstances_def Let_def)
qed

text \<open>
  C8 (as amended).  \<open>pruneStaleInstances\<close> deletes exactly the owner's instances whose
  due date is more than 30 days before now and whose status is completed or skipped, and
  those whose due date is more than 90 days before now whatever their status; it keeps all
  others in order and returns the number deleted.  Age is measured from the due date, not
  from the completion or skip timestamp.  (That a completed instance goes 30 days after
  its completion is the work of the TTL index of the collection, not of this function.)
\<close>

theorem pruneStaleInstances_exact:
  "snd (pruneStaleInstances now coll uid) = filter (\<lambda>i. \<not> stale now uid i) coll
   \<and> fst (pruneStaleInstances now coll uid) = length (filter (stale now uid) coll)"
  by (simp add: pruneStaleInstances_filter)

theorem pruneStaleInstances_exact_witness:
  "\<not> expiredByTTL pruneNow completedDue40 \<and> \<not> expiredByTTL pruneNow skippedEarly
   \<and> i_dueDate completedDue40 = addDays (startOfDay pruneNow) (- 40)
   \<and> i_dueDate pendingDue40 = addDays (startOfDay pruneNow) (- 40)
   \<and> i_dueDate pendingDue91 = addDays (startOfDay pruneNow) (- 91)
   \<and> pruneStaleInstances pruneNow [completedDue40, pendingDue40, pendingDue91, skippedEarly] ''u1''
     = (2, [pendingDue40, skippedEarly])"
proof -
  have "startOfDay pruneNow = newDate 2025 5 1"
    by (simp add: pruneNow_def startOfDay_MakeDate msPerDay_def)
  then have "i_dueDate completedDue40 = addDays (startOfDay pruneNow) (- 40)"
    "i_dueDate pendingDue40 = addDays (startOfDay pruneNow) (- 40)"
    "i_dueDate pendingDue91 = addDays (startOfDay pruneNow) (- 91)"
    by (simp_all add: completedDue40_def pendingDue40_def pendingDue91_def exampleInstance_def
        addDays_newDate)
  then show ?thesis
    using pruneStaleInstances_exact [of pruneNow
        "[completedDue40, pendingDue40, pendingDue91, skippedEarly]" "''u1''"]
    by (simp add: prune_examples ttl_examples prod_eq_iff)
qed

text \<open>
  C8 as stated fails, in both directions.  An instance due in 30 days is skipped; 40 days
  later it is terminal, with a skip timestamp older than the 30-day retention, but its due
  date is only 10 days back, and it is retained.  An instance due 31 days ago that was
  completed yesterday is deleted, although its completion is one day old.  Neither
  document is one that the TTL index has removed.
\<close>

theorem pruneStale_completion_age_counterexample:
  "skip (addDays pruneNow (- 40))
       [exampleInstance ''a4'' ''u1'' (newDate 2025 5 (1 - 10)) pending] ''a4'' ''u1''
     = (Some skippedEarly, [skippedEarly])
   \<and> i_skippedAt skippedEarly = Some (addDays pruneNow (- 40))
   \<and> \<not> expiredByTTL pruneNow skippedEarly
   \<and> pruneStaleInstances pruneNow [skippedEarly] ''u1'' = (0, [skippedEarly])
   \<and> markDone (addDays pruneNow (- 1))
       [exampleInstance ''a5'' ''u1'' (newDate 2025 5 (1 - 31)) pending] ''a5'' ''u1''
     = (Some completedLate, [completedLate])
   \<and> i_completedAt completedLate = Some (addDays pruneNow (- 1))
   \<and> \<not> expiredByTTL pruneNow completedLate
   \<and> pruneStaleInstances pruneNow [completedLate] ''u1'' = (1, [])"
proof -
  have s: "skip (addDays pruneNow (- 40))
       [exampleInstance ''a4'' ''u1'' (newDate 2025 5 (1 - 10)) pending] ''a4'' ''u1''
     = (Some skippedEarly, [skippedEarly])"
    by (simp add: skip_def findOneAndUpdate_def skippedEarly_def exampleInstance_def)
  have m: "markDone (addDays pruneNow (- 1))
       [exampleInstance ''a5'' ''u1'' (newDate 2025 5 (1 - 31)) pending] ''a5'' ''u1''
     = (Some completedLate, [completedLate])"
    by (simp add: markDone_def findOneAndUpdate_def completedLate_def exampleInstance_def)
  have u: "i_userId skippedEarly = ''u1''" "i_userId completedLate = ''u1''"
    "i_skippedAt skippedEarly = Some (addDays pruneNow (- 40))"
    "i_completedAt completedLate = Some (addDays pruneNow (- 1))"
    by (simp_all add: skippedEarly_def completedLate_def exampleInstance_def)
  have p: "pruneStaleInstances pruneNow [skippedEarly] ''u1'' = (0, [skippedEarly])"
    "pruneStaleInstances pruneNow [completedLate] ''u1'' = (1, [])"
    by (simp_all add: pruneStaleInstances_filter prune_examples)
  show ?thesis
    using s m u(3,4) ttl_examples(4,5) p by simp
qed

section \<open>Properties of the state machine\<close>

lemma find_unique:
  assumes "distinct (map key xs)" "x \<in> set xs"
  shows "find (\<lambda>y. key y = key x \<and> Q y) xs = (if Q x then Some x else None)"
  using assms
proof (induction xs)
  case Nil
  then show ?case by simp
next
  case (Cons a xs)
  show ?case
  proof (cases "a = x")
    case True
    with Cons.prems have "key x \<notin> set (map key xs)" by simp
    then have "\<forall>y \<in> set xs. key y \<noteq> key x" by (metis image_eqI set_map)
    then have "find (\<lambda>y. key y = key x \<and> Q y) xs = None"
      by (auto simp add: find_None_iff)
    with True show ?thesis by simp
  next
    case False
    with Cons.prems have "x \<in> set xs" "key a \<noteq> key x" by auto
    with Cons show ?thesis by simp
  qed
qed

lemma updateFirst_unique:
  assumes "distinct (map key xs)" "x \<in> set xs" "Q x"
  shows "updateFirst (\<lambda>y. key y = key x \<and> Q y) f xs
           = map (\<lambda>y. if key y = key x then f y else y) xs"
  using assms
proof (induction xs)
  case Nil
  then show ?case by simp
next
  case (Cons a xs)
  show ?case
  proof (cases "a = x")
    case True
    with Cons.prems have "key x \<notin> set (map key xs)" by simp
    then have "\<forall>y \<in> set xs. key y \<noteq> key x" by (metis image_eqI set_map)
    then have "map (\<lambda>y. if key y = key x then f y else y) xs = xs"
      by (simp add: map_idI)
    with True Cons.prems show ?thesis by simp
  next
    case False
    with Cons.prems have "x \<in> set xs" "key a \<noteq> key x" by auto
    with Cons show ?thesis by simp
  qed
qed

lemma findOneAndUpdate_hit:
  assumes "distinct (map key xs)" "x \<in> set xs" "Q x"
  shows "findOneAndUpdate (\<lambda>y. key y = key x \<and> Q y) f xs
           = (Some (f x), map (\<lambda>y. if key y = key x then f y else y) xs)"
  using find_unique [where key = key and Q = Q, OF assms(1,2)]
    updateFirst_unique [where key = key and Q = Q and f = f, OF assms] assms(3)
  by (simp add: findOneAndUpdate_def)

lemma findOneAndUpdate_miss:
  assumes "distinct (map key xs)" "x \<in> set xs" "\<not> Q x"
  shows "findOneAndUpdate (\<lambda>y. key y = key x \<and> Q y) f xs = (None, xs)"
  using find_unique [where key = key and Q = Q, OF assms(1,2)] assms(3)
  by (simp add: findOneAndUpdate_def)

text \<open>
  C7.  Transitions are guarded conditional updates.  For an instance of the collection
  (ids being unique), addressed by its id and owner: completing it while it is snoozed
  succeeds, returns the updated document, sets the status to completed and clears
  \<open>snoozedUntil\<close>; when it is completed or skipped, completing, skipping, snoozing and
  unsnoozing each return \<open>null\<close> and leave the collection unchanged.
\<close>

theorem state_machine_guards:
  assumes "distinct (map i_id coll)" "inst \<in> set coll"
  shows "(i_status inst = snoozed \<longrightarrow>
            markDone now coll (i_id inst) (i_userId inst)
              = (Some (inst\<lparr>i_status := completed, i_completedAt := Some now,
                             i_snoozedUntil := None, i_updatedAt := now\<rparr>),
                 map (\<lambda>i. if i_id i = i_id inst
                           then i\<lparr>i_status := completed, i_completedAt := Some now,
                                  i_snoozedUntil := None, i_updatedAt := now\<rparr>
                           else i) coll))
       \<and> (i_status inst = completed \<or> i_status inst = skipped \<longrightarrow>
            markDone now coll (i_id inst) (i_userId inst) = (None, coll)
            \<and> skip now coll (i_id inst) (i_userId inst) = (None, coll)
            \<and> snooze now coll (i_id inst) (i_userId inst) options = (None, coll)
            \<and> unsnooze now coll (i_id inst) (i_userId inst) = (None, coll))"
proof (intro conjI impI)
  assume s: "i_status inst = snoozed"
  show "markDone now coll (i_id inst) (i_userId inst)
      = (Some (inst\<lparr>i_status := completed, i_completedAt := Some now,
                     i_snoozedUntil := None, i_updatedAt := now\<rparr>),
         map (\<lambda>i. if i_id i = i_id inst
                   then i\<lparr>i_status := completed, i_completedAt := Some now,
                          i_snoozedUntil := None, i_updatedAt := now\<rparr>
                   else i) coll)"
    unfolding markDone_def
    using findOneAndUpdate_hit [where key = i_id
        and Q = "\<lambda>i. i_userId i = i_userId inst \<and> (i_status i = pending \<or> i_status i = snoozed)",
        OF assms] s
    by simp
next
  assume t: "i_status inst = completed \<or> i_status inst = skipped"
  show "markDone now coll (i_id inst) (i_userId inst) = (None, coll)"
    unfolding markDone_def
    using findOneAndUpdate_miss [where key = i_id
        and Q = "\<lambda>i. i_userId i = i_userId inst \<and> (i_status i = pending \<or> i_status i = snoozed)",
        OF assms] t
    by auto
  show "skip now coll (i_id inst) (i_userId inst) = (None, coll)"
    unfolding skip_def
    using findOneAndUpdate_miss [where key = i_id
        and Q = "\<lambda>i. i_userId i = i_userId inst \<and> (i_status i = pending \<or> i_status i = snoozed)",
        OF assms] t
    by auto
  show "snooze now coll (i_id inst) (i_userId inst) options = (None, coll)"
    unfolding snooze_def Let_def
    using findOneAndUpdate_miss [where key = i_id
        and Q = "\<lambda>i. i_userId i = i_userId inst \<and> i_status i = pending",
        OF assms] t
    by auto
  show "unsnooze now coll (i_id inst) (i_userId inst) = (None, coll)"
    unfolding unsnooze_def
    using findOneAndUpdate_miss [where key = i_id
        and Q = "\<lambda>i. i_userId i = i_userId inst \<and> i_status i = snoozed",
        OF assms] t
    by auto
qed

theorem state_machine_guards_witness:
  "markDone (newDate 2025 5 2) [snoozedExample, completedExample] ''a1'' ''u1''
     = (Some (snoozedExample\<lparr>i_status := completed, i_completedAt := Some (newDate 2025 5 2),
                i_snoozedUntil := None, i_updatedAt := newDate 2025 5 2\<rparr>),
        [snoozedExample\<lparr>i_status := completed, i_completedAt := Some (newDate 2025 5 2),
                i_snoozedUntil := None, i_updatedAt := newDate 2025 5 2\<rparr>, completedExample])
   \<and> markDone (newDate 2025 5 2) [snoozedExample, completedExample] ''a2'' ''u1''
     = (None, [snoozedExample, completedExample])
   \<and> skip (newDate 2025 5 2) [snoozedExample, completedExample] ''a2'' ''u1''
     = (None, [snoozedExample, completedExample])"
proof -
  have d: "distinct (map i_id [snoozedExample, completedExample])"
    by (simp add: snoozedExample_def completedExample_def exampleInstance_def)
  have f: "i_id snoozedExample = ''a1''" "i_userId snoozedExample = ''u1''"
    "i_status snoozedExample = snoozed" "i_id completedExample = ''a2''"
    "i_userId completedExample = ''u1''" "i_status completedExample = completed"
    by (simp_all add: snoozedExample_def completedExample_def exampleInstance_def)
  from state_machine_guards [OF d, of snoozedExample "newDate 2025 5 2"]
    state_machine_guards [OF d, of completedExample "newDate 2025 5 2"]
  show ?thesis by (simp add: f)
qed

section \<open>Properties of the today queue\<close>

lemma length_insertBy: "length (insertBy le x ys) = Suc (length ys)"
  by (induction ys) simp_all

lemma length_sortBy: "length (sortBy le xs) = length xs"
  by (induction xs) (simp_all add: sortBy_def length_insertBy)

lemma set_insertBy: "set (insertBy le x ys) = insert x (set ys)"
  by (induction ys) auto

lemma set_sortBy: "set (sortBy le xs) = set xs"
  by (induction xs) (simp_all add: sortBy_def set_insertBy)

lemma sorted_wrt_insertBy:
  assumes total: "\<And>a b. le a b \<or> le b a" and trans: "\<And>a b c. le a b \<Longrightarrow> le b c \<Longrightarrow> le a c"
    and "sorted_wrt le ys"
  shows "sorted_wrt le (insertBy le x ys)"
  using assms(3)
proof (induction ys)
  case Nil
  then show ?case by simp
next
  case (Cons y ys)
  show ?case
  proof (cases "le x y")
    case True
    with Cons.prems trans show ?thesis by auto
  next
    case False
    with total have "le y x" by blast
    with Cons False show ?thesis by (auto simp add: set_insertBy)
  qed
qed

lemma sorted_wrt_sortBy:
  assumes "\<And>a b. le a b \<or> le b a" and "\<And>a b c. le a b \<Longrightarrow> le b c \<Longrightarrow> le a c"
  shows "sorted_wrt le (sortBy le xs)"
proof (induction xs)
  case Nil
  then show ?case by (simp add: sortBy_def)
next
  case (Cons x xs)
  have "sortBy le (x # xs) = insertBy le x (sortBy le xs)" by (simp add: sortBy_def)
  with Cons sorted_wrt_insertBy [of le "sortBy le xs" x] assms show ?case by simp
qed

lemma sorted_wrt_take: "sorted_wrt P xs \<Longrightarrow> sorted_wrt P (take n xs)"
proof (induction xs arbitrary: n)
  case Nil
  then show ?case by simp
next
  case (Cons x xs)
  then show ?case by (cases n) (auto dest: in_set_takeD)
qed

lemma scoreOrder_total: "scoreOrder a b \<or> scoreOrder b a"
  by (auto simp add: scoreOrder_def)

lemma scoreOrder_trans: "scoreOrder a b \<Longrightarrow> scoreOrder b c \<Longrightarrow> scoreOrder a c"
  by (auto simp add: scoreOrder_def)

lemma matchingInstances_eq:
  "filter (matchCriteria now (startOfDay now) (endOfDay now) (o_userId options)
       (case o_includeOverdue options of None \<Rightarrow> True | Some b \<Rightarrow> b)) coll
     = matchingInstances now coll options"
  unfolding matchingInstances_def
  by (rule filter_cong [OF refl])
     (auto simp add: matchCriteria_def split: option.splits)

lemma getTodayQueue_scored:
  assumes "scoringOptions options"
  shows "getTodayQueue now coll options =
     Inr \<lparr> items = take (QUEUE_CAPS (planOf options))
                     (sortBy scoreOrder
                        (map (addScoreFields (startOfDay now)) (matchingInstances now coll options))),
           total = length (matchingInstances now coll options),
           capped = (length (matchingInstances now coll options) > QUEUE_CAPS (planOf options)),
           appliedCap = QUEUE_CAPS (planOf options) \<rparr>"
proof -
  have cap: "QUEUE_CAPS (planOf options) \<noteq> 0"
    by (cases "planOf options") (simp_all add: QUEUE_CAPS_def)
  from assms have l: "o_limit options = None"
    and s: "(case o_skipScoring options of None \<Rightarrow> False | Some b \<Rightarrow> b) = False"
    by (auto simp add: scoringOptions_def)
  show ?thesis
    unfolding getTodayQueue_def Let_def l s matchingInstances_eq planOf_def [symmetric]
    using cap by (simp add: length_sortBy)
qed

lemma fifteenDue_matching: "matchingInstances queueNow fifteenDue routeOptions = fifteenDue"
proof -
  have "Day queueNow = MakeDay 2025 5 1"
    unfolding queueNow_def by (rule Day_MakeDate) (simp_all add: msPerDay_def)
  then have "newDate 2025 5 1 \<le> endOfDay queueNow"
    by (simp add: endOfDay_def newDate_def MakeDate_def msPerDay_def)
  then show ?thesis
    by (simp add: matchingInstances_def fifteenDue_def routeOptions_def exampleInstance_def)
qed

text \<open>
  C4.  Queue capping is exact.  For the call the route makes (the tier's cap, scoring not
  skipped), with \<open>T\<close> the number of the owner's matching pending-and-due instances and
  \<open>N\<close> the tier's cap, \<open>getTodayQueue\<close> returns exactly \<open>min T N\<close> items, reports
  \<open>total = T\<close> and \<open>capped = (T > N)\<close>.  With 15 matching instances on the free tier
  (cap 10) it returns 10 items, \<open>total = 15\<close>, \<open>capped = true\<close>.
\<close>

theorem getTodayQueue_cap_exact:
  assumes "scoringOptions options"
  shows "case getTodayQueue now coll options of
           Inl e \<Rightarrow> False
         | Inr res \<Rightarrow>
             length (items res)
               = min (length (matchingInstances now coll options)) (QUEUE_CAPS (planOf options))
             \<and> total res = length (matchingInstances now coll options)
             \<and> capped res
               = (length (matchingInstances now coll options) > QUEUE_CAPS (planOf options))"
  unfolding getTodayQueue_scored [OF assms]
  by (simp add: length_sortBy)

theorem getTodayQueue_cap_exact_witness:
  "scoringOptions routeOptions
   \<and> (case getTodayQueue queueNow fifteenDue routeOptions of
         Inl e \<Rightarrow> False
       | Inr res \<Rightarrow> length (items res) = 10 \<and> total res = 15 \<and> capped res = True)"
proof -
  have o: "scoringOptions routeOptions" "QUEUE_CAPS (planOf routeOptions) = 10"
    by (simp_all add: scoringOptions_def routeOptions_def planOf_def QUEUE_CAPS_def)
  have l: "length fifteenDue = 15" by (simp add: fifteenDue_def)
  from getTodayQueue_cap_exact [OF o(1), of queueNow fifteenDue] o l
  show ?thesis by (simp add: fifteenDue_matching split: sum.splits)
qed

lemma addScoreFields_score:
  "sr_score (addScoreFields todayStart i)
     = REMINDER_TYPE_SCORES (i_type i) * PRIORITY_MULTIPLIERS (i_priority i)
       + OVERDUE_PENALTY_PER_DAY * max 0 ((todayStart - i_dueDate i) div msPerDay)"
    "sr_item (addScoreFields todayStart i) = i"
    "sr_daysOverdue (addScoreFields todayStart i) = max 0 ((todayStart - i_dueDate i) div msPerDay)"
  by (simp_all add: addScoreFields_def Let_def msPerDay_def)

lemma startOfDay_queueNow: "startOfDay queueNow = newDate 2025 5 1"
proof -
  have "Day queueNow = MakeDay 2025 5 1"
    unfolding queueNow_def by (rule Day_MakeDate) (simp_all add: msPerDay_def)
  then show ?thesis by (simp add: startOfDay_def newDate_def)
qed

lemma twoDue_scores:
  "sr_score (addScoreFields (newDate 2025 5 1) highItem) = 40"
  "sr_score (addScoreFields (newDate 2025 5 1) lowItem) = 20"
proof -
  have "(newDate 2025 5 1 - newDate 2025 4 30) div msPerDay = 2"
    by (simp add: newDate_def MakeDate_def MakeDay_def monthStart_def msPerDay_def)
  then show "sr_score (addScoreFields (newDate 2025 5 1) highItem) = 40"
    "sr_score (addScoreFields (newDate 2025 5 1) lowItem) = 20"
    by (simp_all add: addScoreFields_score highItem_def lowItem_def exampleInstance_def
        REMINDER_TYPE_SCORES_def PRIORITY_MULTIPLIERS_def OVERDUE_PENALTY_PER_DAY_def)
qed

lemma twoDue_queue:
  "getTodayQueue queueNow [lowItem, highItem] routeOptions =
     Inr \<lparr> items = [addScoreFields (newDate 2025 5 1) highItem,
                      addScoreFields (newDate 2025 5 1) lowItem],
           total = 2, capped = False, appliedCap = 10 \<rparr>"
proof -
  have o: "scoringOptions routeOptions" "QUEUE_CAPS (planOf routeOptions) = 10"
    by (simp_all add: scoringOptions_def routeOptions_def planOf_def QUEUE_CAPS_def)
  have "Day queueNow = MakeDay 2025 5 1"
    unfolding queueNow_def by (rule Day_MakeDate) (simp_all add: msPerDay_def)
  then have "newDate 2025 4 30 \<le> endOfDay queueNow"
    by (simp add: endOfDay_def newDate_def MakeDate_def MakeDay_def monthStart_def msPerDay_def)
  then have m: "matchingInstances queueNow [lowItem, highItem] routeOptions = [lowItem, highItem]"
    by (simp add: matchingInstances_def routeOptions_def lowItem_def highItem_def
        exampleInstance_def)
  have s: "sortBy scoreOrder [addScoreFields (newDate 2025 5 1) lowItem,
                              addScoreFields (newDate 2025 5 1) highItem]
      = [addScoreFields (newDate 2025 5 1) highItem, addScoreFields (newDate 2025 5 1) lowItem]"
    by (simp add: sortBy_def scoreOrder_def twoDue_scores)
  show ?thesis
    unfolding getTodayQueue_scored [OF o(1)] m o(2) startOfDay_queueNow
    by (simp add: s)
qed

lemma score_tables:
  "REMINDER_TYPE_SCORES birthday = 15" "REMINDER_TYPE_SCORES anniversary = 12"
  "REMINDER_TYPE_SCORES follow_up = 10" "REMINDER_TYPE_SCORES custom = 8"
  "PRIORITY_MULTIPLIERS high = 3" "PRIORITY_MULTIPLIERS medium = 2"
  "PRIORITY_MULTIPLIERS low = 1" "OVERDUE_PENALTY_PER_DAY = 5"
  by (simp_all add: REMINDER_TYPE_SCORES_def PRIORITY_MULTIPLIERS_def
      OVERDUE_PENALTY_PER_DAY_def)

lemma getTodayQueue_scored_sorted_aux:
  assumes "scoringOptions options"
  shows "case getTodayQueue now coll options of
           Inl e \<Rightarrow> False
         | Inr res \<Rightarrow>
             (\<forall>s \<in> set (items res).
                 sr_item s \<in> set (matchingInstances now coll options)
               \<and> sr_score s = scoreOf (startOfDay now) (sr_item s))
           \<and> sorted_wrt (\<lambda>a b. sr_score a > sr_score b
                 \<or> (sr_score a = sr_score b \<and> i_dueDate (sr_item a) \<le> i_dueDate (sr_item b)))
               (items res)
           \<and> (\<forall>j k. j < length (items res) \<and> k < length (items res)
                 \<and> i_type (sr_item (items res ! j)) = i_type (sr_item (items res ! k))
                 \<and> sr_daysOverdue (items res ! j) = sr_daysOverdue (items res ! k)
                 \<and> i_priority (sr_item (items res ! j)) = high
                 \<and> i_priority (sr_item (items res ! k)) = low
                 \<longrightarrow> sr_score (items res ! j) > sr_score (items res ! k) \<and> j < k)"
proof -
  define its where "its = take (QUEUE_CAPS (planOf options))
                     (sortBy scoreOrder
                        (map (addScoreFields (startOfDay now)) (matchingInstances now coll options)))"
  have sub: "set its \<subseteq> addScoreFields (startOfDay now) ` set (matchingInstances now coll options)"
    unfolding its_def
    using set_take_subset [of "QUEUE_CAPS (planOf options)"
        "sortBy scoreOrder (map (addScoreFields (startOfDay now)) (matchingInstances now coll options))"]
    by (simp add: set_sortBy)
  have mem: "\<exists>i \<in> set (matchingInstances now coll options). s = addScoreFields (startOfDay now) i"
    if "s \<in> set its" for s
    using that sub by blast
  have a: "\<forall>s \<in> set its. sr_item s \<in> set (matchingInstances now coll options)
               \<and> sr_score s = scoreOf (startOfDay now) (sr_item s)"
  proof
    fix s assume "s \<in> set its"
    from mem [OF this] obtain i where "i \<in> set (matchingInstances now coll options)"
      "s = addScoreFields (startOfDay now) i" by blast
    then show "sr_item s \<in> set (matchingInstances now coll options)
               \<and> sr_score s = scoreOf (startOfDay now) (sr_item s)"
      by (simp add: addScoreFields_score scoreOf_def)
  qed
  have b: "sorted_wrt scoreOrder its"
    unfolding its_def
    by (intro sorted_wrt_take sorted_wrt_sortBy scoreOrder_total) (rule scoreOrder_trans)
  have c: "sr_score (its ! j) > sr_score (its ! k) \<and> j < k"
    if h: "j < length its" "k < length its"
      "i_type (sr_item (its ! j)) = i_type (sr_item (its ! k))"
      "sr_daysOverdue (its ! j) = sr_daysOverdue (its ! k)"
      "i_priority (sr_item (its ! j)) = high" "i_priority (sr_item (its ! k)) = low"
    for j k
  proof -
    from mem [of "its ! j"] h(1) obtain ij where ij: "its ! j = addScoreFields (startOfDay now) ij"
      by auto
    from mem [of "its ! k"] h(2) obtain ik where ik: "its ! k = addScoreFields (startOfDay now) ik"
      by auto
    have pos: "0 < REMINDER_TYPE_SCORES (i_type ik)"
      by (cases "i_type ik") (simp_all add: REMINDER_TYPE_SCORES_def)
    have gt: "sr_score (its ! j) > sr_score (its ! k)"
      using h(3-6) pos unfolding ij ik
      by (simp add: addScoreFields_score PRIORITY_MULTIPLIERS_def)
    have "\<not> k \<le> j"
    proof
      assume "k \<le> j"
      with gt have "k < j" by (cases "k = j") auto
      with b h(1) have "scoreOrder (its ! k) (its ! j)"
        by (simp add: sorted_wrt_iff_nth_less)
      with gt show False by (simp add: scoreOrder_def)
    qed
    with gt show ?thesis by simp
  qed
  have b': "sorted_wrt (\<lambda>a b. sr_score a > sr_score b
                 \<or> (sr_score a = sr_score b \<and> i_dueDate (sr_item a) \<le> i_dueDate (sr_item b))) its"
    using b by (simp add: scoreOrder_def [abs_def])
  show ?thesis
    unfolding getTodayQueue_scored [OF assms] its_def [symmetric]
    using a b' c by simp
qed

text \<open>
  C5.  With the fixed tables (birthday 15, anniversary 12, follow_up 10, custom 8; high 3,
  medium 2, low 1; penalty 5 a day), every returned item is a matching instance whose score is
  \<open>typeBaseScore * priorityMultiplier + overduePenaltyPerDay * max 0 daysOverdue\<close>, the
  days being whole days from the due date to the start of today; the returned list is
  sorted by descending score, ties by ascending due date; and of two returned items of the
  same type overdue by the same number of days, a high-priority one has the strictly
  greater score and comes before a low-priority one.
\<close>

theorem getTodayQueue_scored_sorted:
  assumes "scoringOptions options"
  shows "(REMINDER_TYPE_SCORES birthday = 15 \<and> REMINDER_TYPE_SCORES anniversary = 12
          \<and> REMINDER_TYPE_SCORES follow_up = 10 \<and> REMINDER_TYPE_SCORES custom = 8
          \<and> PRIORITY_MULTIPLIERS high = 3 \<and> PRIORITY_MULTIPLIERS medium = 2
          \<and> PRIORITY_MULTIPLIERS low = 1 \<and> OVERDUE_PENALTY_PER_DAY = 5)
       \<and> (case getTodayQueue now coll options of
           Inl e \<Rightarrow> False
         | Inr res \<Rightarrow>
             (\<forall>s \<in> set (items res).
                 sr_item s \<in> set (matchingInstances now coll options)
               \<and> sr_score s = scoreOf (startOfDay now) (sr_item s))
           \<and> sorted_wrt (\<lambda>a b. sr_score a > sr_score b
                 \<or> (sr_score a = sr_score b \<and> i_dueDate (sr_item a) \<le> i_dueDate (sr_item b)))
               (items res)
           \<and> (\<forall>j k. j < length (items res) \<and> k < length (items res)
                 \<and> i_type (sr_item (items res ! j)) = i_type (sr_item (items res ! k))
                 \<and> sr_daysOverdue (items res ! j) = sr_daysOverdue (items res ! k)
                 \<and> i_priority (sr_item (items res ! j)) = high
                 \<and> i_priority (sr_item (items res ! k)) = low
                 \<longrightarrow> sr_score (items res ! j) > sr_score (items res ! k) \<and> j < k))"
  using getTodayQueue_scored_sorted_aux [OF assms, of now coll] score_tables by blast

theorem getTodayQueue_scored_sorted_witness:
  "scoringOptions routeOptions
   \<and> getTodayQueue queueNow [lowItem, highItem] routeOptions =
       Inr \<lparr> items = [addScoreFields (newDate 2025 5 1) highItem,
                        addScoreFields (newDate 2025 5 1) lowItem],
             total = 2, capped = False, appliedCap = 10 \<rparr>
   \<and> sr_score (addScoreFields (newDate 2025 5 1) highItem) = 40
   \<and> sr_score (addScoreFields (newDate 2025 5 1) lowItem) = 20
   \<and> sr_score (addScoreFields (newDate 2025 5 1) highItem)
       = scoreOf (newDate 2025 5 1) highItem"
proof -
  have o: "scoringOptions routeOptions"
    by (simp add: scoringOptions_def routeOptions_def)
  have "sr_score (addScoreFields (newDate 2025 5 1) highItem)
       = scoreOf (newDate 2025 5 1) highItem"
    using getTodayQueue_scored_sorted [OF o, of queueNow "[lowItem, highItem]", THEN conjunct2]
    unfolding twoDue_queue
    by (simp add: addScoreFields_score startOfDay_queueNow)
  with o twoDue_queue twoDue_scores show ?thesis by simp
qed

section \<open>Properties of the materializer\<close>

subsection \<open>The bulk upsert\<close>

lemma touched_refl: "touched a a"
  by (simp add: touched_def)

lemma touched_trans: "touched a b \<Longrightarrow> touched b c \<Longrightarrow> touched a c"
  by (cases a, cases b, cases c) (simp add: touched_def)

lemma touched_update: "touched a (a\<lparr>i_updatedAt := u\<rparr>)"
  by (simp add: touched_def)

lemma touched_fields:
  assumes "touched a b"
  shows "i_instanceKey b = i_instanceKey a" "i_status b = i_status a"
    "i_dueDate b = i_dueDate a" "i_snoozedUntil b = i_snoozedUntil a"
  using assms by (cases a, cases b, simp add: touched_def)+

lemma extends_refl: "extends coll coll"
  by (simp add: extends_def list_all2_refl touched_refl)

lemma extends_trans:
  assumes "extends a b" "extends b c"
  shows "extends a c"
proof -
  from assms have l: "length a \<le> length b" "length b \<le> length c"
    and ab: "list_all2 touched a (take (length a) b)"
    and bc: "list_all2 touched b (take (length b) c)"
    by (simp_all add: extends_def)
  from bc have "list_all2 touched (take (length a) b) (take (length a) (take (length b) c))"
    by (rule list_all2_takeI)
  with l have "list_all2 touched (take (length a) b) (take (length a) c)"
    by (simp add: min_absorb1)
  with ab have "list_all2 touched a (take (length a) c)"
    by (rule list_all2_trans [rotated]) (rule touched_trans)
  with l show ?thesis by (simp add: extends_def)
qed

lemma updateFirst_touched:
  "list_all2 touched xs (updateFirst P (\<lambda>i. i\<lparr>i_updatedAt := u\<rparr>) xs)"
  by (induction xs) (simp_all add: touched_update touched_refl list_all2_refl)

lemma length_updateFirst: "length (updateFirst P f xs) = length xs"
  by (induction xs) simp_all

lemma applyUpsert_extends: "extends (fst st) (fst (applyUpsert newId op st))"
proof (cases "find (\<lambda>i. i_instanceKey i = filterInstanceKey op) (fst st)")
  case None
  then show ?thesis
    by (simp add: applyUpsert_def Let_def extends_def list_all2_refl touched_refl)
next
  case (Some doc)
  then show ?thesis
    by (simp add: applyUpsert_def Let_def extends_def length_updateFirst updateFirst_touched)
qed

lemma bulkWriteFrom_extends: "extends (fst st) (fst (bulkWriteFrom newId ops st))"
proof (induction ops arbitrary: st)
  case Nil
  then show ?case by (simp add: extends_refl)
next
  case (Cons op ops)
  from applyUpsert_extends [of st newId op] Cons [of "applyUpsert newId op st"]
  show ?case by (simp add: extends_trans)
qed

lemma extends_keys:
  assumes "extends coll coll'"
  shows "set (map i_instanceKey coll) \<subseteq> set (map i_instanceKey coll')"
proof -
  from assms have "list_all2 touched coll (take (length coll) coll')"
    by (simp add: extends_def)
  then have "list_all2 (\<lambda>a b. i_instanceKey a = i_instanceKey b) coll (take (length coll) coll')"
    by (rule list_all2_mono) (simp add: touched_fields)
  then have "map i_instanceKey coll = map i_instanceKey (take (length coll) coll')"
    by (simp add: list_all2_conv_all_nth list_eq_iff_nth_eq)
  then have "set (map i_instanceKey coll) = set (map i_instanceKey (take (length coll) coll'))"
    by simp
  also have "\<dots> \<subseteq> set (map i_instanceKey coll')"
    using set_take_subset [of "length coll" coll'] by auto
  finally show ?thesis .
qed

lemma applyUpsert_key:
  assumes "keyed op"
  shows "filterInstanceKey op \<in> set (map i_instanceKey (fst (applyUpsert newId op st)))"
proof (cases "find (\<lambda>i. i_instanceKey i = filterInstanceKey op) (fst st)")
  case None
  with assms show ?thesis
    by (simp add: applyUpsert_def Let_def insertedDoc_def keyed_def)
next
  case (Some doc)
  then have "doc \<in> set (fst st)" "i_instanceKey doc = filterInstanceKey op"
    by (auto simp add: find_Some_iff)
  then have "filterInstanceKey op \<in> set (map i_instanceKey (fst st))" by force
  with extends_keys [OF applyUpsert_extends [of st newId op]] show ?thesis by blast
qed

lemma bulkWriteFrom_keys:
  assumes "list_all keyed ops"
  shows "filterInstanceKey ` set ops
           \<subseteq> set (map i_instanceKey (fst (bulkWriteFrom newId ops st)))"
  using assms
proof (induction ops arbitrary: st)
  case Nil
  then show ?case by simp
next
  case (Cons op ops)
  from Cons.prems have k: "keyed op" and ks: "list_all keyed ops" by simp_all
  have "filterInstanceKey op \<in> set (map i_instanceKey (fst (applyUpsert newId op st)))"
    by (rule applyUpsert_key [OF k])
  with extends_keys [OF bulkWriteFrom_extends [of "applyUpsert newId op st" newId ops]]
  have "filterInstanceKey op
      \<in> set (map i_instanceKey (fst (bulkWriteFrom newId ops (applyUpsert newId op st))))"
    by blast
  with Cons.IH [OF ks, of "applyUpsert newId op st"] show ?case by simp
qed

lemma applyUpsert_present:
  assumes "filterInstanceKey op \<in> set (map i_instanceKey (fst st))"
  shows "upsertedCount (snd (applyUpsert newId op st)) = upsertedCount (snd st)"
    and "length (fst (applyUpsert newId op st)) = length (fst st)"
proof -
  from assms have "find (\<lambda>i. i_instanceKey i = filterInstanceKey op) (fst st) \<noteq> None"
    by (auto simp add: find_None_iff)
  then obtain doc where "find (\<lambda>i. i_instanceKey i = filterInstanceKey op) (fst st) = Some doc"
    by blast
  then show "upsertedCount (snd (applyUpsert newId op st)) = upsertedCount (snd st)"
    and "length (fst (applyUpsert newId op st)) = length (fst st)"
    by (simp_all add: applyUpsert_def Let_def length_updateFirst)
qed

lemma bulkWriteFrom_present:
  assumes "filterInstanceKey ` set ops \<subseteq> set (map i_instanceKey (fst st))"
  shows "upsertedCount (snd (bulkWriteFrom newId ops st)) = upsertedCount (snd st)
       \<and> length (fst (bulkWriteFrom newId ops st)) = length (fst st)"
  using assms
proof (induction ops arbitrary: st)
  case Nil
  then show ?case by simp
next
  case (Cons op ops)
  from Cons.prems have p: "filterInstanceKey op \<in> set (map i_instanceKey (fst st))" by simp
  from Cons.prems have "filterInstanceKey ` set ops \<subseteq> set (map i_instanceKey (fst st))"
    by simp
  with extends_keys [OF applyUpsert_extends [of st newId op]]
  have "filterInstanceKey ` set ops \<subseteq> set (map i_instanceKey (fst (applyUpsert newId op st)))"
    by (rule order_trans [rotated])
  from Cons.IH [OF this] applyUpsert_present [OF p, of newId] show ?case by simp
qed

lemma bulkWrite_Nil:
  "bulkWrite newId [] coll = (coll, \<lparr> upsertedCount = 0, modifiedCount = 0 \<rparr>)"
  by (simp add: bulkWrite_def)

lemma materializeRule_found:
  assumes "find (\<lambda>r. r_id r = rid) rules = Some rule"
    "find (\<lambda>c. c_id c = r_contactId rule) contacts = Some contact"
  shows "materializeRule newId now rules contacts coll rid plan =
     (case computeDueDates rule (startOfDay now)
             (addDays (startOfDay now) (MATERIALIZATION_WINDOW plan))
             \<lparr>lc_contactId = c_id contact, lc_lastContactedAt = c_lastContactedAt contact\<rparr> of
        None \<Rightarrow> None
      | Some ds \<Rightarrow>
          Some (\<lparr> userId = r_userId rule, rulesProcessed = 1,
                  instancesCreated = upsertedCount
                    (snd (bulkWrite newId (map (upsertOp rule (r_userId rule) None now) ds) coll)),
                  instancesUpdated = modifiedCount
                    (snd (bulkWrite newId (map (upsertOp rule (r_userId rule) None now) ds) coll)),
                  errors = [] \<rparr>,
                fst (bulkWrite newId (map (upsertOp rule (r_userId rule) None now) ds) coll)))"
  by (cases "computeDueDates rule (startOfDay now)
             (addDays (startOfDay now) (MATERIALIZATION_WINDOW plan))
             \<lparr>lc_contactId = c_id contact, lc_lastContactedAt = c_lastContactedAt contact\<rparr>")
     (simp_all add: materializeRule_def Let_def assms bulkWrite_Nil)

lemma upsertOp_keyed: "keyed (upsertOp rule uid cn now d)"
  by (simp add: keyed_def upsertOp_def Let_def)

lemma upsertOp_key: "filterInstanceKey (upsertOp rule uid cn now d) = generateInstanceKey (r_id rule) d"
  by (simp add: upsertOp_def Let_def)

lemma bulkWrite_extends: "extends coll (fst (bulkWrite newId ops coll))"
  unfolding bulkWrite_def using bulkWriteFrom_extends [of "(coll, _)"] by simp

lemma bulkWrite_keys:
  "list_all keyed ops \<Longrightarrow>
   filterInstanceKey ` set ops \<subseteq> set (map i_instanceKey (fst (bulkWrite newId ops coll)))"
  unfolding bulkWrite_def by (rule bulkWriteFrom_keys)

lemma bulkWrite_present:
  assumes "filterInstanceKey ` set ops \<subseteq> set (map i_instanceKey coll)"
  shows "upsertedCount (snd (bulkWrite newId ops coll)) = 0"
    and "length (fst (bulkWrite newId ops coll)) = length coll"
  unfolding bulkWrite_def
  using bulkWriteFrom_present [of ops "(coll, \<lparr> upsertedCount = 0, modifiedCount = 0 \<rparr>)" newId]
    assms by simp_all

lemma extends_same_length:
  "extends coll coll' \<Longrightarrow> length coll' = length coll \<Longrightarrow> list_all2 touched coll coll'"
  by (simp add: extends_def)

lemma ruleA_dues:
  "computeDueDates ruleA (newDate 2025 0 15) (addDays (newDate 2025 0 15) 30)
      \<lparr> lc_contactId = ''c1'', lc_lastContactedAt = None \<rparr> = Some [newDate 2025 0 45]"
proof -
  have r: "r_type ruleA = follow_up" "r_intervalDays ruleA = Some 30"
    "notifyOffsetsOf ruleA = [0]" "r_intervalAnchor ruleA = Some creation"
    by (simp_all add: ruleA_def notifyOffsetsOf_def)
  have a: "resolveAnchorDate ruleA \<lparr> lc_contactId = ''c1'', lc_lastContactedAt = None \<rparr>
      = newDate 2025 0 15"
    by (simp add: resolveAnchorDate_def r scenario_days)
  have f: "firstDueDate 30 (newDate 2025 0 15) (newDate 2025 0 15) = Some (newDate 2025 0 45)"
    by (subst firstDueDate_eq(1)) (simp_all add: TimeWithinDay_newDate addDays_newDate)
  have n: "notifyDatesInWindow [0] (newDate 2025 0 45) (newDate 2025 0 15) (newDate 2025 0 45)
      = [newDate 2025 0 45]"
    by (simp add: notifyDatesInWindow_def Let_def isBefore_def isAfter_def addDays_newDate
        newDate_simps)
  have g: "generateDues 30 [0] (newDate 2025 0 15) (newDate 2025 0 45) (newDate 2025 0 45) []
      = Some [newDate 2025 0 45]"
    apply (subst generateDues_step, simp add: inTimeRange_newDate, simp)
    apply (subst generateDues_stop, simp add: addDays_newDate inTimeRange_newDate,
        simp add: addDays_newDate newDate_simps)
    apply (simp add: n)
    done
  show ?thesis
    by (simp add: computeDueDates_def computeFollowUpDues_def r a f g addDays_newDate)
qed

lemma materializeRule_first:
  "materializeRule exampleNewId now0 [ruleA, ruleB] [contactAnn] [] ''r1'' free
     = Some (\<lparr> userId = ''u1'', rulesProcessed = 1, instancesCreated = 1,
               instancesUpdated = 0, errors = [] \<rparr>, [instanceA now0])"
proof -
  have f: "find (\<lambda>r. r_id r = ''r1'') [ruleA, ruleB] = Some ruleA"
    "find (\<lambda>c. c_id c = r_contactId ruleA) [contactAnn] = Some contactAnn"
    by (simp_all add: ruleA_def contactAnn_def)
  have c: "c_id contactAnn = ''c1''" "c_lastContactedAt contactAnn = None"
    "r_userId ruleA = ''u1''"
    by (simp_all add: contactAnn_def ruleA_def)
  show ?thesis
    unfolding materializeRule_found [OF f] scenario_days c
    by (simp add: MATERIALIZATION_WINDOW_def ruleA_dues bulkWrite_def applyUpsert_def
        instanceA_def)
qed

lemma materializeRule_second:
  "materializeRule exampleNewId later0 [ruleA, ruleB] [contactAnn] [instanceA now0] ''r1'' free
     = Some (\<lparr> userId = ''u1'', rulesProcessed = 1, instancesCreated = 0,
               instancesUpdated = 1, errors = [] \<rparr>,
             [(instanceA now0)\<lparr>i_updatedAt := later0\<rparr>])"
proof -
  have f: "find (\<lambda>r. r_id r = ''r1'') [ruleA, ruleB] = Some ruleA"
    "find (\<lambda>c. c_id c = r_contactId ruleA) [contactAnn] = Some contactAnn"
    by (simp_all add: ruleA_def contactAnn_def)
  have c: "c_id contactAnn = ''c1''" "c_lastContactedAt contactAnn = None"
    "r_userId ruleA = ''u1''"
    by (simp_all add: contactAnn_def ruleA_def)
  have k: "i_instanceKey (instanceA now0) = generateInstanceKey (r_id ruleA) (newDate 2025 0 45)"
    "i_updatedAt (instanceA now0) = now0"
    by (simp_all add: instanceA_def insertedDoc_def upsertOp_def Let_def)
  have ne: "now0 \<noteq> later0"
    by (simp add: now0_def later0_def MakeDate_def)
  show ?thesis
    unfolding materializeRule_found [OF f] scenario_days c
    by (simp add: MATERIALIZATION_WINDOW_def ruleA_dues bulkWrite_def applyUpsert_def
        upsertOp_key k ne Let_def)
       (simp add: upsertOp_def Let_def ne)
qed

subsection \<open>Idempotence\<close>

text \<open>
  C3.  Materialization is idempotent and non-destructive.  When \<open>materializeRule\<close> has
  returned for a rule, a second run on the resulting collection, with the rule and its
  contact unchanged and "now" on the same day (hence the same window), returns as well,
  creates no instance, and leaves every document as it was but possibly for \<open>updatedAt\<close>.
  The first run itself keeps every document that existed, in place, unchanged (status, due
  date, display fields) but possibly for \<open>updatedAt\<close>, and only appends new ones.
\<close>

theorem materializeRule_idempotent:
  assumes first: "materializeRule newId now rules contacts coll rid plan = Some (res1, coll1)"
    and window: "startOfDay now' = startOfDay now"
  shows "\<exists>res2 coll2.
           materializeRule newId' now' rules contacts coll1 rid plan = Some (res2, coll2)
         \<and> instancesCreated res2 = 0
         \<and> list_all2 touched coll1 coll2
         \<and> extends coll coll1"
proof (cases "find (\<lambda>r. r_id r = rid) rules")
  case None
  with first show ?thesis
    by (auto simp add: materializeRule_def list_all2_refl touched_refl extends_refl)
next
  case (Some rule)
  note rule = this
  show ?thesis
  proof (cases "find (\<lambda>c. c_id c = r_contactId rule) contacts")
    case None
    with rule first show ?thesis
      by (auto simp add: materializeRule_def list_all2_refl touched_refl extends_refl)
  next
    case (Some contact)
    note contact = this
    let ?ws = "startOfDay now"
    let ?ci = "\<lparr>lc_contactId = c_id contact, lc_lastContactedAt = c_lastContactedAt contact\<rparr>"
    from first obtain ds where
      ds: "computeDueDates rule ?ws (addDays ?ws (MATERIALIZATION_WINDOW plan)) ?ci = Some ds"
      unfolding materializeRule_found [OF rule contact]
      by (cases "computeDueDates rule ?ws (addDays ?ws (MATERIALIZATION_WINDOW plan)) ?ci")
        simp_all
    let ?ops1 = "map (upsertOp rule (r_userId rule) None now) ds"
    let ?ops2 = "map (upsertOp rule (r_userId rule) None now') ds"
    from first have c1: "coll1 = fst (bulkWrite newId ?ops1 coll)"
      unfolding materializeRule_found [OF rule contact] ds by simp
    have e1: "extends coll coll1" unfolding c1 by (rule bulkWrite_extends)
    have "list_all keyed ?ops1" by (simp add: list_all_iff upsertOp_keyed)
    from bulkWrite_keys [OF this, of newId coll]
    have "filterInstanceKey ` set ?ops1 \<subseteq> set (map i_instanceKey coll1)"
      unfolding c1 .
    moreover have "filterInstanceKey ` set ?ops2 = filterInstanceKey ` set ?ops1"
      by (simp add: image_image upsertOp_key)
    ultimately have p: "filterInstanceKey ` set ?ops2 \<subseteq> set (map i_instanceKey coll1)"
      by simp
    define coll2 where "coll2 = fst (bulkWrite newId' ?ops2 coll1)"
    have "list_all2 touched coll1 coll2"
      unfolding coll2_def
      by (rule extends_same_length [OF bulkWrite_extends bulkWrite_present(2) [OF p]])
    moreover have "upsertedCount (snd (bulkWrite newId' ?ops2 coll1)) = 0"
      by (rule bulkWrite_present(1) [OF p])
    ultimately show ?thesis
      unfolding materializeRule_found [OF rule contact] window ds
      using e1 by (simp add: coll2_def)
  qed
qed

theorem materializeRule_idempotent_witness:
  "materializeRule exampleNewId now0 [ruleA, ruleB] [contactAnn] [] ''r1'' free
     = Some (\<lparr> userId = ''u1'', rulesProcessed = 1, instancesCreated = 1,
               instancesUpdated = 0, errors = [] \<rparr>, [instanceA now0])
   \<and> startOfDay later0 = startOfDay now0
   \<and> materializeRule exampleNewId later0 [ruleA, ruleB] [contactAnn] [instanceA now0] ''r1'' free
     = Some (\<lparr> userId = ''u1'', rulesProcessed = 1, instancesCreated = 0,
               instancesUpdated = 1, errors = [] \<rparr>,
             [(instanceA now0)\<lparr>i_updatedAt := later0\<rparr>])
   \<and> list_all2 touched [instanceA now0] [(instanceA now0)\<lparr>i_updatedAt := later0\<rparr>]
   \<and> i_status (instanceA now0) = pending"
proof -
  have w: "startOfDay later0 = startOfDay now0" by (simp add: scenario_days)
  from materializeRule_idempotent [OF materializeRule_first w, of exampleNewId]
  have "list_all2 touched [instanceA now0] [(instanceA now0)\<lparr>i_updatedAt := later0\<rparr>]"
    unfolding materializeRule_second by simp
  moreover have "i_status (instanceA now0) = pending"
    by (simp add: instanceA_def insertedDoc_def upsertOp_def Let_def)
  ultimately show ?thesis
    using materializeRule_first materializeRule_second w by simp
qed

subsection \<open>A dangling contact does not abort the batch\<close>

lemma find_filter: "find P (filter Q xs) = find (\<lambda>x. P x \<and> Q x) xs"
  by (induction xs) auto

lemma contactMapGet_filtered:
  assumes "cid \<in> S"
  shows "contactMapGet (filter (\<lambda>c. c_id c \<in> S \<and> c_userId c = uid) contactColl) cid
           = contactOf contactColl uid cid"
proof -
  have e: "(\<lambda>c. c_id c = cid \<and> c_id c \<in> S \<and> c_userId c = uid)
      = (\<lambda>c. c_id c = cid \<and> c_userId c = uid)"
    using assms by auto
  show ?thesis
    unfolding contactMapGet_def contactOf_def rev_filter find_filter e ..
qed

lemma materializeUserLoop_result:
  assumes "\<forall>r \<in> set rules. withinSchema r" "windowInRange ws we"
  shows "materializeUserLoop uid now cs ws we rules st =
     Some ((fst st)\<lparr>rulesProcessed := rulesProcessed (fst st) + length rules,
                    errors := errors (fst st)
                      @ map (\<lambda>r. (r_id r, ''Contact not found''))
                          (filter (\<lambda>r. contactMapGet cs (r_contactId r) = None) rules)\<rparr>,
           snd st @ concat (map (opsOf uid now (contactMapGet cs) ws we) rules))"
  using assms(1)
proof (induction rules arbitrary: st)
  case Nil
  then show ?case by simp
next
  case (Cons rule rules)
  from Cons.prems have v: "withinSchema rule" and vs: "\<forall>r \<in> set rules. withinSchema r"
    by simp_all
  show ?case
  proof (cases "contactMapGet cs (r_contactId rule)")
    case None
    then show ?thesis
      by (simp add: Let_def Cons.IH [OF vs] opsOf_def)
  next
    case (Some c)
    from computeDueDates_eq [OF v assms(2)] obtain ds where
      "computeDueDates rule ws we
         \<lparr> lc_contactId = c_id c, lc_lastContactedAt = c_lastContactedAt c \<rparr> = Some ds"
      by blast
    with Some show ?thesis
      by (simp add: Let_def Cons.IH [OF vs] opsOf_def)
  qed
qed

lemma opsOf_keyed: "list_all keyed (concat (map (opsOf uid now getContact ws we) rules))"
  by (auto simp add: list_all_iff opsOf_def upsertOp_keyed split: option.splits)

lemma opsOf_mem:
  assumes "r \<in> set rules" "getContact (r_contactId r) = Some c"
    "computeDueDates r ws we
       \<lparr> lc_contactId = c_id c, lc_lastContactedAt = c_lastContactedAt c \<rparr> = Some ds"
    "d \<in> set ds"
  shows "generateInstanceKey (r_id r) d
      \<in> filterInstanceKey ` set (concat (map (opsOf uid now getContact ws we) rules))"
proof -
  have "upsertOp r uid (Some (c_name c)) now d \<in> set (opsOf uid now getContact ws we r)"
    using assms(2,3,4) by (simp add: opsOf_def)
  with assms(1) have "upsertOp r uid (Some (c_name c)) now d
      \<in> set (concat (map (opsOf uid now getContact ws we) rules))" by auto
  then have "filterInstanceKey (upsertOp r uid (Some (c_name c)) now d)
      \<in> filterInstanceKey ` set (concat (map (opsOf uid now getContact ws we) rules))"
    by (rule imageI)
  then show ?thesis by (simp add: upsertOp_key)
qed

lemma materializeUser_scenario:
  "materializeUser exampleNewId now0 [ruleA, ruleB] [contactAnn] [] ''u1'' free
     = Some (\<lparr> userId = ''u1'', rulesProcessed = 2, instancesCreated = 1,
               instancesUpdated = 0, errors = [(''r2'', ''Contact not found'')] \<rparr>,
             [instanceU])"
proof -
  have a: "filter (\<lambda>r. r_userId r = ''u1'' \<and> r_isActive r) [ruleA, ruleB] = [ruleA, ruleB]"
    by (simp add: ruleA_def ruleB_def)
  have c: "filter (\<lambda>c. c_id c \<in> set (remdups (map r_contactId [ruleA, ruleB]))
              \<and> c_userId c = ''u1'') [contactAnn] = [contactAnn]"
    by (simp add: ruleA_def ruleB_def contactAnn_def)
  have g: "contactMapGet [contactAnn] (r_contactId ruleA) = Some contactAnn"
    "contactMapGet [contactAnn] (r_contactId ruleB) = None"
    by (simp_all add: contactMapGet_def ruleA_def ruleB_def contactAnn_def)
  have f: "c_id contactAnn = ''c1''" "c_lastContactedAt contactAnn = None"
    "c_name contactAnn = ''Ann''" "r_id ruleB = ''r2''"
    by (simp_all add: contactAnn_def ruleB_def)
  have l: "materializeUserLoop ''u1'' now0 [contactAnn] (newDate 2025 0 15)
       (addDays (newDate 2025 0 15) 30) [ruleA, ruleB]
       (\<lparr> userId = ''u1'', rulesProcessed = 0, instancesCreated = 0,
           instancesUpdated = 0, errors = [] \<rparr>, [])
     = Some (\<lparr> userId = ''u1'', rulesProcessed = 2, instancesCreated = 0,
               instancesUpdated = 0, errors = [(''r2'', ''Contact not found'')] \<rparr>,
             [upsertOp ruleA ''u1'' (Some ''Ann'') now0 (newDate 2025 0 45)])"
    by (simp add: Let_def g f ruleA_dues)
  have w: "MATERIALIZATION_WINDOW free = 30" by (simp add: MATERIALIZATION_WINDOW_def)
  show ?thesis
    unfolding materializeUser_def Let_def a c scenario_days w l
    by (simp add: bulkWrite_def applyUpsert_def instanceU_def)
qed

text \<open>
  The bound on \<open>intervalDays\<close> is needed.  With an interval of 100000000 days the first
  due date is past the range of time values, an Invalid Date, and \<open>materializeUser\<close> does
  not return.
\<close>

lemma hugeInterval_no_return:
  "materializeUser newId now0 [hugeIntervalRule] [contactAnn] coll ''u1'' plan = None"
proof -
  let ?ws = "newDate 2025 0 15"
  let ?ci = "\<lparr> lc_contactId = ''c1'', lc_lastContactedAt = None \<rparr>"
  have r: "r_type hugeIntervalRule = follow_up" "r_intervalDays hugeIntervalRule = Some 100000000"
    "r_userId hugeIntervalRule = ''u1''" "r_isActive hugeIntervalRule"
    "r_contactId hugeIntervalRule = ''c1''"
    by (simp_all add: hugeIntervalRule_def ruleA_def)
  have a: "resolveAnchorDate hugeIntervalRule ?ci = ?ws"
    by (simp add: resolveAnchorDate_def hugeIntervalRule_def ruleA_def startOfDay_MakeDate
        msPerDay_def)
  have f: "firstDueDate 100000000 ?ws ?ws = Some (newDate 2025 0 100000015)"
    by (subst firstDueDate_eq(1)) (simp_all add: TimeWithinDay_newDate addDays_newDate)
  have "\<not> inTimeRange (newDate 2025 0 100000015)"
    by (simp add: inTimeRange_def maxTimeValue_def newDate_def MakeDate_def MakeDay_def
        DayFromYear_def monthStart_def msPerDay_def)
  then have g: "generateDues 100000000 offs ?ws we (newDate 2025 0 100000015) [] = None"
    for offs we
    by (rule generateDues_invalid)
  have d: "computeDueDates hugeIntervalRule ?ws we ?ci = None" for we
    by (simp add: computeDueDates_def computeFollowUpDues_def r a f g)
  have c: "contactMapGet [contactAnn] ''c1'' = Some contactAnn"
    "c_id contactAnn = ''c1''" "c_lastContactedAt contactAnn = None" "c_userId contactAnn = ''u1''"
    by (simp_all add: contactMapGet_def contactAnn_def)
  show ?thesis
    by (simp add: materializeUser_def Let_def r c scenario_days d)
qed

lemma scenario_in_range:
  "withinSchema ruleA" "withinSchema ruleB" "clockInRange now0"
  "lastContactInRange (c_lastContactedAt contactAnn)"
  by (simp_all add: withinSchema_def ruleA_def ruleB_def notifyOffsetsOf_def inTimeRange_def
      clockInRange_def now0_def lastContactInRange_def contactAnn_def maxTimeValue_def
      MakeDate_def MakeDay_def DayFromYear_def monthStart_def isLeapYear_def msPerDay_def)

text \<open>
  C9.  Let every active rule of the owner lie within the bounds of the request schema
  (\<open>intervalDays\<close> from 1 to 365, notify offsets from 0 to 30, month and day of a fixed
  date in range), and let the clock and the stored dates lie in the range of time values,
  the clock at least 1000 days from its ends, so that no date computed is an Invalid Date.
  Then \<open>materializeUser\<close> returns the structured result rather than failing:
  \<open>rulesProcessed\<close> counts every active rule, \<open>errors\<close> holds one \<open>Contact not found\<close>
  entry for each rule whose contact is missing, in rule order, and every other rule is
  processed: its due dates are computed, and for each of them an instance with the rule's
  key for that date is in the collection afterwards.  Existing documents are kept.
\<close>

theorem materializeUser_partial_success:
  assumes rules: "\<forall>r \<in> set (activeRules uid ruleColl). withinSchema r"
    and contacts: "\<forall>c \<in> set contactColl. lastContactInRange (c_lastContactedAt c)"
    and clock: "clockInRange now"
  shows "\<exists>res coll'.
           materializeUser newId now ruleColl contactColl coll uid plan = Some (res, coll')
         \<and> rulesProcessed res = length (activeRules uid ruleColl)
         \<and> errors res
             = map (\<lambda>r. (r_id r, ''Contact not found''))
                 (filter (\<lambda>r. contactOf contactColl uid (r_contactId r) = None)
                    (activeRules uid ruleColl))
         \<and> extends coll coll'
         \<and> (\<forall>r \<in> set (activeRules uid ruleColl). \<forall>c.
               contactOf contactColl uid (r_contactId r) = Some c
               \<longrightarrow> (\<exists>ds. dueDatesOf now plan r c = Some ds
                      \<and> (\<forall>d \<in> set ds.
                            generateInstanceKey (r_id r) d \<in> set (map i_instanceKey coll'))))"
proof (cases "activeRules uid ruleColl = []")
  case True
  then have "materializeUser newId now ruleColl contactColl coll uid plan
      = Some (\<lparr> userId = uid, rulesProcessed = 0, instancesCreated = 0,
                  instancesUpdated = 0, errors = [] \<rparr>, coll)"
    by (simp add: materializeUser_def Let_def activeRules_def)
  with True show ?thesis by (simp add: extends_refl)
next
  case False
  define active where "active = activeRules uid ruleColl"
  define cs where "cs = filter (\<lambda>c. c_id c \<in> set (remdups (map r_contactId active))
      \<and> c_userId c = uid) contactColl"
  define ws where "ws = startOfDay now"
  define we where "we = addDays ws (MATERIALIZATION_WINDOW plan)"
  define r0 where "r0 = \<lparr> userId = uid, rulesProcessed = 0, instancesCreated = 0,
                     instancesUpdated = 0, errors = [] \<rparr>"
  define ops where "ops = concat (map (opsOf uid now (contactMapGet cs) ws we) active)"
  define dangling where
    "dangling = filter (\<lambda>r. contactOf contactColl uid (r_contactId r) = None) active"
  define r1 where "r1 = r0\<lparr>rulesProcessed := length active,
                    errors := map (\<lambda>r. (r_id r, ''Contact not found'')) dangling\<rparr>"
  have get: "contactMapGet cs (r_contactId r) = contactOf contactColl uid (r_contactId r)"
    if "r \<in> set active" for r
    unfolding cs_def using that by (intro contactMapGet_filtered) simp
  have d: "filter (\<lambda>r. contactMapGet cs (r_contactId r) = None) active = dangling"
    unfolding dangling_def by (rule filter_cong [OF refl]) (simp add: get)
  have win: "windowInRange ws we"
    unfolding ws_def we_def using clock by (rule clockInRange_window)
  from rules have v: "\<forall>r \<in> set active. withinSchema r" by (simp add: active_def)
  have loop: "materializeUserLoop uid now cs ws we active (r0, []) = Some (r1, ops)"
    unfolding materializeUserLoop_result [OF v win] d
    by (simp add: r0_def r1_def ops_def)
  have ne: "length active \<noteq> 0" using False by (simp add: active_def)
  define W where "W = bulkWrite newId ops coll"
  define res where "res = (if length ops > 0
      then r1\<lparr>instancesCreated := upsertedCount (snd W), instancesUpdated := modifiedCount (snd W)\<rparr>
      else r1)"
  have run: "materializeUser newId now ruleColl contactColl coll uid plan = Some (res, fst W)"
    unfolding materializeUser_def Let_def activeRules_def [symmetric] active_def [symmetric]
      cs_def [symmetric] r0_def [symmetric] ws_def [symmetric] we_def [symmetric]
    using ne by (simp add: loop res_def W_def bulkWrite_Nil)
  have rp: "rulesProcessed res = length active"
    and er: "errors res = map (\<lambda>r. (r_id r, ''Contact not found'')) dangling"
    by (simp_all add: res_def r1_def r0_def)
  have ex: "extends coll (fst W)" unfolding W_def by (rule bulkWrite_extends)
  have keys: "filterInstanceKey ` set ops \<subseteq> set (map i_instanceKey (fst W))"
    unfolding W_def ops_def by (rule bulkWrite_keys [OF opsOf_keyed])
  have pres: "\<exists>ds. dueDatesOf now plan r c = Some ds
      \<and> (\<forall>d \<in> set ds. generateInstanceKey (r_id r) d \<in> set (map i_instanceKey (fst W)))"
    if r: "r \<in> set active" and c: "contactOf contactColl uid (r_contactId r) = Some c" for r c
  proof -
    from v r have "withinSchema r" by simp
    from computeDueDates_eq [OF this win] obtain ds where
      ds: "dueDatesOf now plan r c = Some ds"
      by (simp add: dueDatesOf_def ws_def we_def)
    have "generateInstanceKey (r_id r) d \<in> set (map i_instanceKey (fst W))"
      if "d \<in> set ds" for d
    proof -
      have "generateInstanceKey (r_id r) d \<in> filterInstanceKey ` set ops"
        unfolding ops_def
        using that r c ds get [OF r]
        by (intro opsOf_mem [where c = c and ds = ds])
           (simp_all add: dueDatesOf_def ws_def we_def)
      with keys show ?thesis by blast
    qed
    with ds show ?thesis by blast
  qed
  show ?thesis
    unfolding active_def [symmetric] dangling_def [symmetric]
    using run rp er ex pres by blast
qed

theorem materializeUser_partial_success_witness:
  "withinSchema ruleA \<and> withinSchema ruleB \<and> clockInRange now0
   \<and> lastContactInRange (c_lastContactedAt contactAnn)
   \<and> contactOf [contactAnn] ''u1'' (r_contactId ruleB) = None
   \<and> materializeUser exampleNewId now0 [ruleA, ruleB] [contactAnn] [] ''u1'' free
     = Some (\<lparr> userId = ''u1'', rulesProcessed = 2, instancesCreated = 1,
               instancesUpdated = 0, errors = [(''r2'', ''Contact not found'')] \<rparr>,
             [instanceU])
   \<and> dueDatesOf now0 free ruleA contactAnn = Some [newDate 2025 0 45]
   \<and> generateInstanceKey (r_id ruleA) (newDate 2025 0 45) \<in> set (map i_instanceKey [instanceU])"
proof -
  have act: "activeRules ''u1'' [ruleA, ruleB] = [ruleA, ruleB]"
    by (simp add: activeRules_def ruleA_def ruleB_def)
  have c: "contactOf [contactAnn] ''u1'' (r_contactId ruleB) = None"
    "contactOf [contactAnn] ''u1'' (r_contactId ruleA) = Some contactAnn"
    by (simp_all add: contactOf_def ruleA_def ruleB_def contactAnn_def)
  have d: "dueDatesOf now0 free ruleA contactAnn = Some [newDate 2025 0 45]"
    using ruleA_dues
    by (simp add: dueDatesOf_def scenario_days MATERIALIZATION_WINDOW_def contactAnn_def)
  have r: "\<forall>r \<in> set (activeRules ''u1'' [ruleA, ruleB]). withinSchema r"
    using scenario_in_range(1,2) act by simp
  have k: "\<forall>c \<in> set [contactAnn]. lastContactInRange (c_lastContactedAt c)"
    using scenario_in_range(4) by simp
  from materializeUser_partial_success [OF r k scenario_in_range(3), of exampleNewId "[]" free]
  have "generateInstanceKey (r_id ruleA) (newDate 2025 0 45) \<in> set (map i_instanceKey [instanceU])"
    unfolding materializeUser_scenario act using c(2) d by auto
  with scenario_in_range c(1) d materializeUser_scenario show ?thesis by simp
qed

subsection \<open>The snooze invariant\<close>

lemma format_newDate:
  assumes "0 \<le> m" "m \<le> 11" "1 \<le> dt" "dt \<le> daysInMonth (isLeapYear y) m" "0 < y"
  shows "format_yyyy_MM_dd (newDate y m dt)
           = addLeadingZeros y 4 @ [CHR ''-''] @ addLeadingZeros (m + 1) 2 @ [CHR ''-'']
             @ addLeadingZeros dt 2"
  using civil_of_MakeDay [OF assms(1-4)] assms(5)
  by (simp add: format_yyyy_MM_dd_def Let_def getFullYear_def getMonth_def getDate_def
      Day_newDate)

lemma pad_examples:
  "addLeadingZeros 2025 4 = ''2025''" "addLeadingZeros 2 2 = ''02''"
  "addLeadingZeros 14 2 = ''14''" "addLeadingZeros 6 2 = ''06''" "addLeadingZeros 1 2 = ''01''"
  by code_simp+

lemma key_examples:
  "generateInstanceKey ''r1'' (newDate 2025 1 14) = ''r1:2025-02-14''"
  "generateInstanceKey ''r1'' (newDate 2025 5 1) = ''r1:2025-06-01''"
  by (simp_all add: generateInstanceKey_def format_newDate daysInMonth_def isLeapYear_def
      pad_examples)

lemma updateFirst_list_all:
  assumes "list_all R xs" "\<And>x. P x \<Longrightarrow> R x \<Longrightarrow> R (f x)"
  shows "list_all R (updateFirst P f xs)"
  using assms by (induction xs) auto

lemma findOneAndUpdate_list_all:
  assumes "list_all R xs" "\<And>x. P x \<Longrightarrow> R x \<Longrightarrow> R (f x)"
  shows "list_all R (snd (findOneAndUpdate P f xs))"
  using updateFirst_list_all [of R xs P f] assms
  by (simp add: findOneAndUpdate_def split: option.splits)

lemma applyUpsert_invariant:
  assumes "list_all snoozedUntilIffSnoozed (fst st)" "s_status (setOnInsert op) = pending"
  shows "list_all snoozedUntilIffSnoozed (fst (applyUpsert newId op st))"
proof (cases "find (\<lambda>i. i_instanceKey i = filterInstanceKey op) (fst st)")
  case None
  with assms show ?thesis
    by (simp add: applyUpsert_def Let_def insertedDoc_def snoozedUntilIffSnoozed_def)
next
  case (Some doc)
  have "list_all snoozedUntilIffSnoozed
      (updateFirst (\<lambda>i. i_instanceKey i = filterInstanceKey op)
         (\<lambda>i. i\<lparr>i_updatedAt := setUpdatedAt op\<rparr>) (fst st))"
    by (rule updateFirst_list_all [OF assms(1)]) (simp add: snoozedUntilIffSnoozed_def)
  with Some show ?thesis by (simp add: applyUpsert_def Let_def)
qed

lemma bulkWriteFrom_invariant:
  assumes "list_all snoozedUntilIffSnoozed (fst st)"
    "list_all (\<lambda>op. s_status (setOnInsert op) = pending) ops"
  shows "list_all snoozedUntilIffSnoozed (fst (bulkWriteFrom newId ops st))"
  using assms
proof (induction ops arbitrary: st)
  case Nil
  then show ?case by simp
next
  case (Cons op ops)
  then show ?case by (simp add: applyUpsert_invariant)
qed

lemma materializeUserLoop_ops:
  assumes "materializeUserLoop uid now contacts ws we rules st = Some st'"
    "list_all Q (snd st)" "\<And>rule cn d. Q (upsertOp rule uid cn now d)"
  shows "list_all Q (snd st')"
  using assms(1,2)
proof (induction rules arbitrary: st)
  case Nil
  then show ?case by simp
next
  case (Cons rule rules)
  show ?case
  proof (cases "contactMapGet contacts (r_contactId rule)")
    case None
    with Cons.prems(1) have "materializeUserLoop uid now contacts ws we rules
        (((fst st)\<lparr>rulesProcessed := rulesProcessed (fst st) + 1\<rparr>)
           \<lparr>errors := errors (fst st) @ [(r_id rule, ''Contact not found'')]\<rparr>, snd st) = Some st'"
      by (simp add: Let_def)
    from Cons.IH [OF this] Cons.prems(2) show ?thesis by simp
  next
    case (Some contact)
    with Cons.prems(1) obtain ds where
      "materializeUserLoop uid now contacts ws we rules
        ((fst st)\<lparr>rulesProcessed := rulesProcessed (fst st) + 1\<rparr>,
         snd st @ map (upsertOp rule uid (Some (c_name contact)) now) ds) = Some st'"
      by (cases "computeDueDates rule ws we
          \<lparr>lc_contactId = c_id contact, lc_lastContactedAt = c_lastContactedAt contact\<rparr>")
        (simp_all add: Let_def)
    from Cons.IH [OF this] Cons.prems(2) assms(3) show ?thesis
      by (auto simp add: list_all_iff)
  qed
qed

lemma upsertOp_pending: "s_status (setOnInsert (upsertOp rule uid cn now d)) = pending"
  by (simp add: upsertOp_def Let_def)

lemma bulkWrite_invariant:
  assumes "list_all snoozedUntilIffSnoozed coll"
    "list_all (\<lambda>op. s_status (setOnInsert op) = pending) ops"
  shows "list_all snoozedUntilIffSnoozed (fst (bulkWrite newId ops coll))"
  unfolding bulkWrite_def using assms by (intro bulkWriteFrom_invariant) simp_all

lemma materializeUser_invariant:
  assumes "list_all snoozedUntilIffSnoozed coll"
    "materializeUser newId now rules contacts coll uid plan = Some (res, coll')"
  shows "list_all snoozedUntilIffSnoozed coll'"
proof (cases "length (filter (\<lambda>r. r_userId r = uid \<and> r_isActive r) rules) = 0")
  case True
  with assms show ?thesis by (simp add: materializeUser_def Let_def)
next
  case False
  define active where "active = filter (\<lambda>r. r_userId r = uid \<and> r_isActive r) rules"
  define cs where "cs = filter (\<lambda>c. c_id c \<in> set (remdups (map r_contactId active))
      \<and> c_userId c = uid) contacts"
  define ws where "ws = startOfDay now"
  define r0 where "r0 = \<lparr> userId = uid, rulesProcessed = 0, instancesCreated = 0,
                     instancesUpdated = 0, errors = [] \<rparr>"
  from assms(2) False obtain st where
    loop: "materializeUserLoop uid now cs ws (addDays ws (MATERIALIZATION_WINDOW plan)) active
        (r0, []) = Some st"
    and res: "(if length (snd st) > 0
         then Some ((fst st)\<lparr>instancesCreated := upsertedCount (snd (bulkWrite newId (snd st) coll)),
                             instancesUpdated := modifiedCount (snd (bulkWrite newId (snd st) coll))\<rparr>,
                    fst (bulkWrite newId (snd st) coll))
         else Some (fst st, coll)) = Some (res, coll')"
    unfolding materializeUser_def Let_def active_def [symmetric] cs_def [symmetric]
      ws_def [symmetric] r0_def [symmetric]
    by (cases "materializeUserLoop uid now cs ws (addDays ws (MATERIALIZATION_WINDOW plan))
        active (r0, [])") simp_all
  have ops: "list_all (\<lambda>op. s_status (setOnInsert op) = pending) (snd st)"
    by (rule materializeUserLoop_ops [OF loop]) (simp_all add: upsertOp_pending)
  show ?thesis
  proof (cases "length (snd st) > 0")
    case True
    with res have "coll' = fst (bulkWrite newId (snd st) coll)" by simp
    with bulkWrite_invariant [OF assms(1) ops] show ?thesis by simp
  next
    case False
    with res assms(1) show ?thesis by simp
  qed
qed

lemma materializeRule_cases:
  assumes "materializeRule newId now rules contacts coll rid plan = Some (res, coll')"
  shows "(coll' = coll \<and> instancesCreated res = 0)
       \<or> (\<exists>rule contact ds.
            find (\<lambda>r. r_id r = rid) rules = Some rule
          \<and> find (\<lambda>c. c_id c = r_contactId rule) contacts = Some contact
          \<and> computeDueDates rule (startOfDay now)
               (addDays (startOfDay now) (MATERIALIZATION_WINDOW plan))
               \<lparr>lc_contactId = c_id contact, lc_lastContactedAt = c_lastContactedAt contact\<rparr>
              = Some ds
          \<and> ds \<noteq> []
          \<and> coll' = fst (bulkWrite newId (map (upsertOp rule (r_userId rule) None now) ds) coll)
          \<and> instancesCreated res
              = upsertedCount (snd (bulkWrite newId (map (upsertOp rule (r_userId rule) None now) ds) coll)))"
proof (cases "find (\<lambda>r. r_id r = rid) rules")
  case None
  with assms show ?thesis by (auto simp add: materializeRule_def)
next
  case (Some rule)
  note rule = this
  show ?thesis
  proof (cases "find (\<lambda>c. c_id c = r_contactId rule) contacts")
    case None
    with rule assms show ?thesis by (auto simp add: materializeRule_def)
  next
    case (Some contact)
    note contact = this
    show ?thesis
    proof (cases "computeDueDates rule (startOfDay now)
               (addDays (startOfDay now) (MATERIALIZATION_WINDOW plan))
               \<lparr>lc_contactId = c_id contact, lc_lastContactedAt = c_lastContactedAt contact\<rparr>")
      case None
      with rule contact assms show ?thesis by (simp add: materializeRule_def Let_def)
    next
      case (Some ds)
      with rule contact assms show ?thesis
        by (cases "ds = []") (auto simp add: materializeRule_def Let_def)
    qed
  qed
qed

lemma materializeRule_invariant:
  assumes "list_all snoozedUntilIffSnoozed coll"
    "materializeRule newId now rules contacts coll rid plan = Some (res, coll')"
  shows "list_all snoozedUntilIffSnoozed coll'"
proof -
  from materializeRule_cases [OF assms(2)] show ?thesis
  proof
    assume "coll' = coll \<and> instancesCreated res = 0"
    with assms(1) show ?thesis by simp
  next
    assume "\<exists>rule contact ds.
            find (\<lambda>r. r_id r = rid) rules = Some rule
          \<and> find (\<lambda>c. c_id c = r_contactId rule) contacts = Some contact
          \<and> computeDueDates rule (startOfDay now)
               (addDays (startOfDay now) (MATERIALIZATION_WINDOW plan))
               \<lparr>lc_contactId = c_id contact, lc_lastContactedAt = c_lastContactedAt contact\<rparr>
              = Some ds
          \<and> ds \<noteq> []
          \<and> coll' = fst (bulkWrite newId (map (upsertOp rule (r_userId rule) None now) ds) coll)
          \<and> instancesCreated res
              = upsertedCount (snd (bulkWrite newId (map (upsertOp rule (r_userId rule) None now) ds) coll))"
    then obtain rule ds where
      "coll' = fst (bulkWrite newId (map (upsertOp rule (r_userId rule) None now) ds) coll)"
      by blast
    moreover have "list_all (\<lambda>op. s_status (setOnInsert op) = pending)
        (map (upsertOp rule (r_userId rule) None now) ds)"
      by (simp add: list_all_iff upsertOp_pending)
    ultimately show ?thesis using bulkWrite_invariant [OF assms(1)] by simp
  qed
qed

lemma feb14: "newDate 2025 0 45 = newDate 2025 1 14"
  by (simp add: newDate_eq_iff MakeDay_def monthStart_def)

lemma snoozedExample_key:
  "i_instanceKey snoozedExample \<noteq> generateInstanceKey ''r1'' (newDate 2025 0 45)"
  by (simp add: snoozedExample_def exampleInstance_def feb14 key_examples)

lemma materializeRule_on_snoozed:
  "materializeRule exampleNewId now0 [ruleA, ruleB] [contactAnn] [snoozedExample] ''r1'' free
     = Some (\<lparr> userId = ''u1'', rulesProcessed = 1, instancesCreated = 1,
               instancesUpdated = 0, errors = [] \<rparr>, [snoozedExample, instanceA2])"
proof -
  have f: "find (\<lambda>r. r_id r = ''r1'') [ruleA, ruleB] = Some ruleA"
    "find (\<lambda>c. c_id c = r_contactId ruleA) [contactAnn] = Some contactAnn"
    by (simp_all add: ruleA_def contactAnn_def)
  have c: "c_id contactAnn = ''c1''" "c_lastContactedAt contactAnn = None"
    "r_userId ruleA = ''u1''" "r_id ruleA = ''r1''"
    by (simp_all add: contactAnn_def ruleA_def)
  show ?thesis
    unfolding materializeRule_found [OF f] scenario_days c
    by (simp add: MATERIALIZATION_WINDOW_def ruleA_dues bulkWrite_def applyUpsert_def
        upsertOp_key c snoozedExample_key instanceA2_def)
qed

lemma materializeUser_on_snoozed:
  "materializeUser exampleNewId now0 [ruleA, ruleB] [contactAnn] [snoozedExample] ''u1'' free
     = Some (\<lparr> userId = ''u1'', rulesProcessed = 2, instancesCreated = 1,
               instancesUpdated = 0, errors = [(''r2'', ''Contact not found'')] \<rparr>,
             [snoozedExample, instanceU2])"
proof -
  have a: "filter (\<lambda>r. r_userId r = ''u1'' \<and> r_isActive r) [ruleA, ruleB] = [ruleA, ruleB]"
    by (simp add: ruleA_def ruleB_def)
  have c: "filter (\<lambda>c. c_id c \<in> set (remdups (map r_contactId [ruleA, ruleB]))
              \<and> c_userId c = ''u1'') [contactAnn] = [contactAnn]"
    by (simp add: ruleA_def ruleB_def contactAnn_def)
  have g: "contactMapGet [contactAnn] (r_contactId ruleA) = Some contactAnn"
    "contactMapGet [contactAnn] (r_contactId ruleB) = None"
    by (simp_all add: contactMapGet_def ruleA_def ruleB_def contactAnn_def)
  have f: "c_id contactAnn = ''c1''" "c_lastContactedAt contactAnn = None"
    "c_name contactAnn = ''Ann''" "r_id ruleB = ''r2''" "r_id ruleA = ''r1''"
    by (simp_all add: contactAnn_def ruleB_def ruleA_def)
  have l: "materializeUserLoop ''u1'' now0 [contactAnn] (newDate 2025 0 15)
       (addDays (newDate 2025 0 15) 30) [ruleA, ruleB]
       (\<lparr> userId = ''u1'', rulesProcessed = 0, instancesCreated = 0,
           instancesUpdated = 0, errors = [] \<rparr>, [])
     = Some (\<lparr> userId = ''u1'', rulesProcessed = 2, instancesCreated = 0,
               instancesUpdated = 0, errors = [(''r2'', ''Contact not found'')] \<rparr>,
             [upsertOp ruleA ''u1'' (Some ''Ann'') now0 (newDate 2025 0 45)])"
    by (simp add: Let_def g f ruleA_dues)
  have w: "MATERIALIZATION_WINDOW free = 30" by (simp add: MATERIALIZATION_WINDOW_def)
  show ?thesis
    unfolding materializeUser_def Let_def a c scenario_days w l
    by (simp add: bulkWrite_def applyUpsert_def upsertOp_key f snoozedExample_key
        instanceU2_def)
qed

lemma snooze_examples:
  "distinct (map i_id [snoozedExample, pendingExample])"
  "list_all snoozedUntilIffSnoozed [snoozedExample, pendingExample]"
  "i_id snoozedExample = ''a1''" "i_userId snoozedExample = ''u1''"
  "i_status snoozedExample = snoozed"
  "i_id pendingExample = ''a3''" "i_userId pendingExample = ''u1''"
  "i_status pendingExample = pending"
  by (simp_all add: snoozedExample_def pendingExample_def exampleInstance_def
      snoozedUntilIffSnoozed_def)

text \<open>
  C10.  Every write to an instance preserves the invariant that \<open>snoozedUntil\<close> is set
  if and only if the status is snoozed: if it holds of every document of the collection,
  it holds of every document after \<open>markDone\<close>, \<open>snooze\<close>, \<open>unsnooze\<close>, \<open>skip\<close>,
  \<open>materializeUser\<close> and \<open>materializeRule\<close>.  The writes are these.  A document the
  materializer inserts has status pending and no \<open>snoozedUntil\<close>.  On a pending instance
  of the collection (ids being unique), addressed by its id and owner, \<open>snooze\<close> sets
  the status to snoozed and \<open>snoozedUntil\<close> to the given date, or to the given number of
  days (by default one) from now, in one update of that document alone.  On a snoozed
  instance, \<open>unsnooze\<close>, \<open>markDone\<close> and \<open>skip\<close> each set the status to pending,
  completed and skipped respectively and unset \<open>snoozedUntil\<close>, in one update of that
  document alone.
\<close>

theorem snoozedUntil_invariant:
  assumes "list_all snoozedUntilIffSnoozed coll"
  shows "list_all snoozedUntilIffSnoozed (snd (markDone now coll iid uid))
       \<and> list_all snoozedUntilIffSnoozed (snd (snooze now coll iid uid options))
       \<and> list_all snoozedUntilIffSnoozed (snd (unsnooze now coll iid uid))
       \<and> list_all snoozedUntilIffSnoozed (snd (skip now coll iid uid))
       \<and> (\<forall>res coll'. materializeUser newId now rules contacts coll uid plan = Some (res, coll')
            \<longrightarrow> list_all snoozedUntilIffSnoozed coll')
       \<and> (\<forall>res coll'. materializeRule newId now rules contacts coll rid plan = Some (res, coll')
            \<longrightarrow> list_all snoozedUntilIffSnoozed coll')
       \<and> i_status (insertedDoc oid (upsertOp rule uid cn now d)) = pending
       \<and> i_snoozedUntil (insertedDoc oid (upsertOp rule uid cn now d)) = None
       \<and> (\<forall>inst. distinct (map i_id coll) \<and> inst \<in> set coll \<and> i_status inst = pending \<longrightarrow>
            snooze now coll (i_id inst) (i_userId inst) options
              = (Some (inst\<lparr>i_status := snoozed,
                             i_snoozedUntil := Some
                               (case sn_until options of
                                  Some until \<Rightarrow> until
                                | None \<Rightarrow>
                                    addDays now (case sn_days options of Some days \<Rightarrow> days | None \<Rightarrow> 1)),
                             i_updatedAt := now\<rparr>),
                 map (\<lambda>i. if i_id i = i_id inst
                           then i\<lparr>i_status := snoozed,
                                  i_snoozedUntil := Some
                                    (case sn_until options of
                                       Some until \<Rightarrow> until
                                     | None \<Rightarrow>
                                         addDays now
                                           (case sn_days options of Some days \<Rightarrow> days | None \<Rightarrow> 1)),
                                  i_updatedAt := now\<rparr>
                           else i) coll))
       \<and> (\<forall>inst. distinct (map i_id coll) \<and> inst \<in> set coll \<and> i_status inst = snoozed \<longrightarrow>
            unsnooze now coll (i_id inst) (i_userId inst)
              = (Some (inst\<lparr>i_status := pending, i_snoozedUntil := None, i_updatedAt := now\<rparr>),
                 map (\<lambda>i. if i_id i = i_id inst
                           then i\<lparr>i_status := pending, i_snoozedUntil := None, i_updatedAt := now\<rparr>
                           else i) coll)
          \<and> markDone now coll (i_id inst) (i_userId inst)
              = (Some (inst\<lparr>i_status := completed, i_completedAt := Some now,
                             i_snoozedUntil := None, i_updatedAt := now\<rparr>),
                 map (\<lambda>i. if i_id i = i_id inst
                           then i\<lparr>i_status := completed, i_completedAt := Some now,
                                  i_snoozedUntil := None, i_updatedAt := now\<rparr>
                           else i) coll)
          \<and> skip now coll (i_id inst) (i_userId inst)
              = (Some (inst\<lparr>i_status := skipped, i_skippedAt := Some now,
                             i_snoozedUntil := None, i_updatedAt := now\<rparr>),
                 map (\<lambda>i. if i_id i = i_id inst
                           then i\<lparr>i_status := skipped, i_skippedAt := Some now,
                                  i_snoozedUntil := None, i_updatedAt := now\<rparr>
                           else i) coll))"
proof -
  have "list_all snoozedUntilIffSnoozed (snd (markDone now coll iid uid))"
    unfolding markDone_def
    by (rule findOneAndUpdate_list_all [OF assms]) (simp add: snoozedUntilIffSnoozed_def)
  moreover have "list_all snoozedUntilIffSnoozed (snd (snooze now coll iid uid options))"
    unfolding snooze_def Let_def
    by (rule findOneAndUpdate_list_all [OF assms]) (simp add: snoozedUntilIffSnoozed_def)
  moreover have "list_all snoozedUntilIffSnoozed (snd (unsnooze now coll iid uid))"
    unfolding unsnooze_def
    by (rule findOneAndUpdate_list_all [OF assms]) (simp add: snoozedUntilIffSnoozed_def)
  moreover have "list_all snoozedUntilIffSnoozed (snd (skip now coll iid uid))"
    unfolding skip_def
    by (rule findOneAndUpdate_list_all [OF assms]) (simp add: snoozedUntilIffSnoozed_def)
  moreover have "snooze now coll (i_id inst) (i_userId inst) options
      = (Some (inst\<lparr>i_status := snoozed,
                     i_snoozedUntil := Some
                       (case sn_until options of
                          Some until \<Rightarrow> until
                        | None \<Rightarrow>
                            addDays now (case sn_days options of Some days \<Rightarrow> days | None \<Rightarrow> 1)),
                     i_updatedAt := now\<rparr>),
         map (\<lambda>i. if i_id i = i_id inst
                   then i\<lparr>i_status := snoozed,
                          i_snoozedUntil := Some
                            (case sn_until options of
                               Some until \<Rightarrow> until
                             | None \<Rightarrow>
                                 addDays now
                                   (case sn_days options of Some days \<Rightarrow> days | None \<Rightarrow> 1)),
                          i_updatedAt := now\<rparr>
                   else i) coll)"
    if "distinct (map i_id coll)" "inst \<in> set coll" "i_status inst = pending" for inst
    unfolding snooze_def Let_def DEFAULT_SNOOZE_DAYS_def
    using findOneAndUpdate_hit [where key = i_id
        and Q = "\<lambda>i. i_userId i = i_userId inst \<and> i_status i = pending", OF that(1,2)] that(3)
    by simp
  moreover have "unsnooze now coll (i_id inst) (i_userId inst)
      = (Some (inst\<lparr>i_status := pending, i_snoozedUntil := None, i_updatedAt := now\<rparr>),
         map (\<lambda>i. if i_id i = i_id inst
                   then i\<lparr>i_status := pending, i_snoozedUntil := None, i_updatedAt := now\<rparr>
                   else i) coll)"
    if "distinct (map i_id coll)" "inst \<in> set coll" "i_status inst = snoozed" for inst
    unfolding unsnooze_def
    using findOneAndUpdate_hit [where key = i_id
        and Q = "\<lambda>i. i_userId i = i_userId inst \<and> i_status i = snoozed", OF that(1,2)] that(3)
    by simp
  moreover have "markDone now coll (i_id inst) (i_userId inst)
      = (Some (inst\<lparr>i_status := completed, i_completedAt := Some now,
                     i_snoozedUntil := None, i_updatedAt := now\<rparr>),
         map (\<lambda>i. if i_id i = i_id inst
                   then i\<lparr>i_status := completed, i_completedAt := Some now,
                          i_snoozedUntil := None, i_updatedAt := now\<rparr>
                   else i) coll)"
    if "distinct (map i_id coll)" "inst \<in> set coll" "i_status inst = snoozed" for inst
    unfolding markDone_def
    using findOneAndUpdate_hit [where key = i_id
        and Q = "\<lambda>i. i_userId i = i_userId inst \<and> (i_status i = pending \<or> i_status i = snoozed)",
        OF that(1,2)] that(3)
    by simp
  moreover have "skip now coll (i_id inst) (i_userId inst)
      = (Some (inst\<lparr>i_status := skipped, i_skippedAt := Some now,
                     i_snoozedUntil := None, i_updatedAt := now\<rparr>),
         map (\<lambda>i. if i_id i = i_id inst
                   then i\<lparr>i_status := skipped, i_skippedAt := Some now,
                          i_snoozedUntil := None, i_updatedAt := now\<rparr>
                   else i) coll)"
    if "distinct (map i_id coll)" "inst \<in> set coll" "i_status inst = snoozed" for inst
    unfolding skip_def
    using findOneAndUpdate_hit [where key = i_id
        and Q = "\<lambda>i. i_userId i = i_userId inst \<and> (i_status i = pending \<or> i_status i = snoozed)",
        OF that(1,2)] that(3)
    by simp
  ultimately show ?thesis
    using materializeUser_invariant [OF assms] materializeRule_invariant [OF assms]
    by (simp add: insertedDoc_def upsertOp_def Let_def)
qed

theorem snoozedUntil_invariant_witness:
  "list_all snoozedUntilIffSnoozed [snoozedExample, pendingExample]
   \<and> distinct (map i_id [snoozedExample, pendingExample])
   \<and> i_status pendingExample = pending \<and> i_snoozedUntil pendingExample = None
   \<and> i_status snoozedExample = snoozed \<and> i_snoozedUntil snoozedExample = Some (newDate 2025 5 3)
   \<and> snooze now0 [snoozedExample, pendingExample] ''a3'' ''u1'' \<lparr> sn_days = Some 2, sn_until = None \<rparr>
     = (Some (pendingExample\<lparr>i_status := snoozed, i_snoozedUntil := Some (addDays now0 2),
                i_updatedAt := now0\<rparr>),
        [snoozedExample,
         pendingExample\<lparr>i_status := snoozed, i_snoozedUntil := Some (addDays now0 2),
                i_updatedAt := now0\<rparr>])
   \<and> unsnooze now0 [snoozedExample, pendingExample] ''a1'' ''u1''
     = (Some (snoozedExample\<lparr>i_status := pending, i_snoozedUntil := None, i_updatedAt := now0\<rparr>),
        [snoozedExample\<lparr>i_status := pending, i_snoozedUntil := None, i_updatedAt := now0\<rparr>,
         pendingExample])
   \<and> markDone now0 [snoozedExample, pendingExample] ''a1'' ''u1''
     = (Some (snoozedExample\<lparr>i_status := completed, i_completedAt := Some now0,
                i_snoozedUntil := None, i_updatedAt := now0\<rparr>),
        [snoozedExample\<lparr>i_status := completed, i_completedAt := Some now0,
                i_snoozedUntil := None, i_updatedAt := now0\<rparr>,
         pendingExample])
   \<and> skip now0 [snoozedExample, pendingExample] ''a1'' ''u1''
     = (Some (snoozedExample\<lparr>i_status := skipped, i_skippedAt := Some now0,
                i_snoozedUntil := None, i_updatedAt := now0\<rparr>),
        [snoozedExample\<lparr>i_status := skipped, i_skippedAt := Some now0,
                i_snoozedUntil := None, i_updatedAt := now0\<rparr>,
         pendingExample])
   \<and> list_all snoozedUntilIffSnoozed
        (snd (snooze now0 [snoozedExample, pendingExample] ''a3'' ''u1''
                \<lparr> sn_days = Some 2, sn_until = None \<rparr>))
   \<and> list_all snoozedUntilIffSnoozed (snd (unsnooze now0 [snoozedExample, pendingExample] ''a1'' ''u1''))
   \<and> list_all snoozedUntilIffSnoozed (snd (markDone now0 [snoozedExample, pendingExample] ''a1'' ''u1''))
   \<and> list_all snoozedUntilIffSnoozed (snd (skip now0 [snoozedExample, pendingExample] ''a1'' ''u1''))
   \<and> list_all snoozedUntilIffSnoozed [snoozedExample]
   \<and> materializeUser exampleNewId now0 [ruleA, ruleB] [contactAnn] [snoozedExample] ''u1'' free
     = Some (\<lparr> userId = ''u1'', rulesProcessed = 2, instancesCreated = 1,
               instancesUpdated = 0, errors = [(''r2'', ''Contact not found'')] \<rparr>,
             [snoozedExample, instanceU2])
   \<and> list_all snoozedUntilIffSnoozed [snoozedExample, instanceU2]
   \<and> materializeRule exampleNewId now0 [ruleA, ruleB] [contactAnn] [snoozedExample] ''r1'' free
     = Some (\<lparr> userId = ''u1'', rulesProcessed = 1, instancesCreated = 1,
               instancesUpdated = 0, errors = [] \<rparr>, [snoozedExample, instanceA2])
   \<and> list_all snoozedUntilIffSnoozed [snoozedExample, instanceA2]"
proof -
  let ?coll = "[snoozedExample, pendingExample]"
  have i: "list_all snoozedUntilIffSnoozed [snoozedExample]"
    using snooze_examples(2) by simp
  have f: "i_snoozedUntil pendingExample = None"
    "i_snoozedUntil snoozedExample = Some (newDate 2025 5 3)"
    by (simp_all add: snoozedExample_def pendingExample_def exampleInstance_def)
  have m: "pendingExample \<in> set ?coll" "snoozedExample \<in> set ?coll" by simp_all
  note t = snoozedUntil_invariant [OF snooze_examples(2),
      where now = now0 and options = "\<lparr> sn_days = Some 2, sn_until = None \<rparr>"]
  note hit = t [THEN conjunct2, THEN conjunct2, THEN conjunct2, THEN conjunct2, THEN conjunct2,
      THEN conjunct2, THEN conjunct2, THEN conjunct2]
  have a: "list_all snoozedUntilIffSnoozed
        (snd (snooze now0 ?coll ''a3'' ''u1'' \<lparr> sn_days = Some 2, sn_until = None \<rparr>))"
    "list_all snoozedUntilIffSnoozed (snd (unsnooze now0 ?coll ''a1'' ''u1''))"
    "list_all snoozedUntilIffSnoozed (snd (markDone now0 ?coll ''a1'' ''u1''))"
    "list_all snoozedUntilIffSnoozed (snd (skip now0 ?coll ''a1'' ''u1''))"
    using t [of "''a3''" "''u1''"] t [of "''a1''" "''u1''"] by simp_all
  have p: "snooze now0 ?coll ''a3'' ''u1'' \<lparr> sn_days = Some 2, sn_until = None \<rparr>
     = (Some (pendingExample\<lparr>i_status := snoozed, i_snoozedUntil := Some (addDays now0 2),
                i_updatedAt := now0\<rparr>),
        [snoozedExample,
         pendingExample\<lparr>i_status := snoozed, i_snoozedUntil := Some (addDays now0 2),
                i_updatedAt := now0\<rparr>])"
    using hit [THEN conjunct1, rule_format, of pendingExample] snooze_examples m(1)
    by simp
  note h = hit [THEN conjunct2, rule_format, of snoozedExample]
  have q: "unsnooze now0 ?coll ''a1'' ''u1''
     = (Some (snoozedExample\<lparr>i_status := pending, i_snoozedUntil := None, i_updatedAt := now0\<rparr>),
        [snoozedExample\<lparr>i_status := pending, i_snoozedUntil := None, i_updatedAt := now0\<rparr>,
         pendingExample])"
    "markDone now0 ?coll ''a1'' ''u1''
     = (Some (snoozedExample\<lparr>i_status := completed, i_completedAt := Some now0,
                i_snoozedUntil := None, i_updatedAt := now0\<rparr>),
        [snoozedExample\<lparr>i_status := completed, i_completedAt := Some now0,
                i_snoozedUntil := None, i_updatedAt := now0\<rparr>,
         pendingExample])"
    "skip now0 ?coll ''a1'' ''u1''
     = (Some (snoozedExample\<lparr>i_status := skipped, i_skippedAt := Some now0,
                i_snoozedUntil := None, i_updatedAt := now0\<rparr>),
        [snoozedExample\<lparr>i_status := skipped, i_skippedAt := Some now0,
                i_snoozedUntil := None, i_updatedAt := now0\<rparr>,
         pendingExample])"
    using h snooze_examples m(2) by simp_all
  from snoozedUntil_invariant [OF i, of now0 "''a1''" "''u1''" "\<lparr> sn_days = Some 2, sn_until = None \<rparr>"
      exampleNewId "[ruleA, ruleB]" "[contactAnn]" free "''r1''"]
    materializeUser_on_snoozed materializeRule_on_snoozed
  have r: "list_all snoozedUntilIffSnoozed [snoozedExample, instanceU2]"
    "list_all snoozedUntilIffSnoozed [snoozedExample, instanceA2]"
    by simp_all
  show ?thesis
    unfolding p q
    using snooze_examples(1,2,5,8) f i r a [unfolded p q]
      materializeUser_on_snoozed materializeRule_on_snoozed
    by simp
qed

end
